theory Spec2Isabelle
  imports Main "HOL-Library.Multiset" "HOL-Library.Sublist"
begin

section \<open>Strings\<close>

text \<open>
  The pipeline of \<^verbatim>\<open>processExcel\<close> (src/src/FileSplit.tsx) works on the rows that
  \<^verbatim>\<open>XLSX.utils.sheet_to_json(worksheet, {raw: false, defval: ''})\<close> delivers: one plain
  object per data row, every cell already formatted as text. A row is modelled as the list
  of its own (column, text) pairs; \<^verbatim>\<open>row.FinalStatus\<close> is a lookup that gives
  \<^verbatim>\<open>undefined\<close> (\<open>None\<close>) for an absent column.

  A JavaScript string is a sequence of 16-bit code units. Cell text and column names are
  of type \<^typ>\<open>string\<close>: a \<^typ>\<open>char\<close> is a code unit below 256, that is, a character of
  Latin-1 (U+0000 to U+00FF) by its code. Text with a code unit from 256 on is not a value
  of the type. A result that can leave this range, as that of \<^verbatim>\<open>toUpperCase\<close> does, is a
  list of code units as natural numbers.

  \<^verbatim>\<open>String.prototype.trim\<close> strips the code units of ECMAScript's WhiteSpace and
  LineTerminator from both ends: TAB, LF, VT, FF, CR, SPACE, NO-BREAK SPACE, U+1680,
  U+2000 to U+200A, U+2028, U+2029, U+202F, U+205F, U+3000 and U+FEFF.
\<close>

type_synonym code_units = "nat list"

definition isWhiteSpace_unit :: "nat \<Rightarrow> bool" where
  "isWhiteSpace_unit n =
     (n \<in> set [0x09, 0x0A, 0x0B, 0x0C, 0x0D, 0x20, 0xA0, 0x1680, 0x2000, 0x2001, 0x2002,
                0x2003, 0x2004, 0x2005, 0x2006, 0x2007, 0x2008, 0x2009, 0x200A, 0x2028,
                0x2029, 0x202F, 0x205F, 0x3000, 0xFEFF])"

text \<open>The characters among them are TAB, LF, VT, FF, CR, SPACE and NO-BREAK SPACE.\<close>

definition isWhiteSpace :: "char \<Rightarrow> bool" where
  "isWhiteSpace c = isWhiteSpace_unit (of_char c)"

definition trimStart :: "string \<Rightarrow> string" where
  "trimStart s = dropWhile isWhiteSpace s"

definition trimEnd :: "string \<Rightarrow> string" where
  "trimEnd s = rev (dropWhile isWhiteSpace (rev s))"

definition trim :: "string \<Rightarrow> string" where
  "trim s = trimEnd (trimStart s)"

definition trim_units :: "code_units \<Rightarrow> code_units" where
  "trim_units s = rev (dropWhile isWhiteSpace_unit (rev (dropWhile isWhiteSpace_unit s)))"

text \<open>The code units of a text; a string literal of the program, as code units.\<close>

definition units :: "string \<Rightarrow> code_units" where
  "units s = map of_char s"

text \<open>
  \<^verbatim>\<open>String.prototype.toUpperCase\<close> on the characters of the type, by the Unicode case
  mappings: a to z and the Latin-1 letters U+00E0 to U+00FE (the division sign U+00F7
  apart) move down by 32; the micro sign becomes GREEK CAPITAL LETTER MU (U+039C), the
  sharp s becomes two letters S, and y with diaeresis becomes U+0178; every other
  character maps to itself.
\<close>

definition toUpperCase_char :: "char \<Rightarrow> code_units" where
  "toUpperCase_char c =
     (let n = of_char c :: nat
      in if 0x61 \<le> n \<and> n \<le> 0x7A then [n - 0x20]
         else if n = 0xB5 then [0x39C]
         else if n = 0xDF then [0x53, 0x53]
         else if 0xE0 \<le> n \<and> n \<le> 0xFE \<and> n \<noteq> 0xF7 then [n - 0x20]
         else if n = 0xFF then [0x178]
         else [n])"

definition toUpperCase :: "string \<Rightarrow> code_units" where
  "toUpperCase s = concat (map toUpperCase_char s)"

section \<open>Plain objects\<close>

text \<open>
  A plain JavaScript object is the list of its own enumerable properties in the order of
  their creation. Enumeration (\<^verbatim>\<open>Object.keys\<close>, \<^verbatim>\<open>Object.entries\<close>, spread) follows
  OrdinaryOwnPropertyKeys: first the keys that are array indices (canonical decimal
  numerals below \<open>2^32 - 1\<close>) in ascending numeric order, then all other keys in creation
  order.
\<close>

type_synonym 'a object = "(string \<times> 'a) list"

type_synonym row = "string object"

definition isDigit :: "char \<Rightarrow> bool" where
  "isDigit c = (c \<in> set ''0123456789'')"

definition digit_value :: "char \<Rightarrow> nat" where
  "digit_value c =
     (case map_of (zip ''0123456789'' [0, 1, 2, 3, 4, 5, 6, 7, 8, 9]) c of
        None \<Rightarrow> 0
      | Some d \<Rightarrow> d)"

definition decimal_value :: "string \<Rightarrow> nat" where
  "decimal_value s = foldl (\<lambda>n c. 10 * n + digit_value c) 0 s"

definition is_array_index :: "string \<Rightarrow> bool" where
  "is_array_index s =
     (s \<noteq> [] \<and> list_all isDigit s \<and> (s = ''0'' \<or> hd s \<noteq> CHR ''0'')
      \<and> decimal_value s < 2 ^ 32 - 1)"

definition Object_entries :: "'a object \<Rightarrow> (string \<times> 'a) list" where
  "Object_entries obj =
     sort_key (\<lambda>(k, v). decimal_value k) (filter (\<lambda>(k, v). is_array_index k) obj)
     @ filter (\<lambda>(k, v). \<not> is_array_index k) obj"

definition Object_keys :: "'a object \<Rightarrow> string list" where
  "Object_keys obj = map fst (Object_entries obj)"

text \<open>\<^verbatim>\<open>obj[k] = v\<close>: an existing property keeps its place, a new one is created last.\<close>

definition obj_set :: "'a object \<Rightarrow> string \<Rightarrow> 'a \<Rightarrow> 'a object" where
  "obj_set obj k v =
     (if k \<in> set (map fst obj)
      then map (\<lambda>(k', v'). if k' = k then (k', v) else (k', v')) obj
      else obj @ [(k, v)])"

text \<open>\<^verbatim>\<open>delete obj[k]\<close>: no effect when the property is absent.\<close>

definition obj_delete :: "'a object \<Rightarrow> string \<Rightarrow> 'a object" where
  "obj_delete obj k = filter (\<lambda>(k', v). k' \<noteq> k) obj"

text \<open>\<^verbatim>\<open>{ ...obj }\<close>: a fresh object that receives the properties in enumeration order.\<close>

definition spread :: "'a object \<Rightarrow> 'a object" where
  "spread obj = Object_entries obj"

text \<open>
  The names that an object literal \<^verbatim>\<open>{}\<close> inherits from \<^verbatim>\<open>Object.prototype\<close>; each of
  them reads as a function (or, for \<^verbatim>\<open>__proto__\<close>, as the prototype object), which is
  truthy and has no \<^verbatim>\<open>push\<close>.
\<close>

definition Object_prototype_keys :: "string list" where
  "Object_prototype_keys =
     [''constructor'', ''__defineGetter__'', ''__defineSetter__'', ''hasOwnProperty'',
      ''__lookupGetter__'', ''__lookupSetter__'', ''isPrototypeOf'', ''propertyIsEnumerable'',
      ''toString'', ''valueOf'', ''__proto__'', ''toLocaleString'']"

datatype 'a js_lookup = Undefined | Inherited | Own 'a

text \<open>\<^verbatim>\<open>obj[k]\<close> on an object created by \<^verbatim>\<open>{}\<close>: own property first, then the prototype.\<close>

definition obj_get :: "'a object \<Rightarrow> string \<Rightarrow> 'a js_lookup" where
  "obj_get obj k =
     (case map_of obj k of
        Some v \<Rightarrow> Own v
      | None \<Rightarrow> if k \<in> set Object_prototype_keys then Inherited else Undefined)"

text \<open>
  \<^verbatim>\<open>row.X\<close> for the two column names the pipeline reads, neither of which is inherited:
  the own property, \<^verbatim>\<open>undefined\<close> when the row has no such column.
\<close>

definition get_prop :: "row \<Rightarrow> string \<Rightarrow> string option" where
  "get_prop r k = map_of r k"

text \<open>\<^verbatim>\<open>String(x || d)\<close> for a cell \<open>x\<close> that is text or \<^verbatim>\<open>undefined\<close>: both
  \<^verbatim>\<open>undefined\<close> and the empty string are falsy.\<close>

definition or_default :: "string option \<Rightarrow> string \<Rightarrow> string" where
  "or_default x d = (case x of None \<Rightarrow> d | Some s \<Rightarrow> if s = [] then d else s)"

text \<open>
  \<^verbatim>\<open>firstRow.hasOwnProperty(k)\<close> on a row as delivered by the reader: whether the row has
  the column. A sheet whose header row names a column \<^verbatim>\<open>hasOwnProperty\<close> is outside the
  model; what key the reader gives such a column is the library's matter.
\<close>

definition hasOwnProperty :: "row \<Rightarrow> string \<Rightarrow> bool" where
  "hasOwnProperty r k = (k \<in> set (map fst r))"

section \<open>Row filter\<close>

text \<open>
  \<^verbatim>\<open>jsonData.filter(row => String(row.FinalStatus || '').toUpperCase().trim() === 'DELIVERED')\<close>
\<close>

definition isDelivered :: "row \<Rightarrow> bool" where
  "isDelivered r =
     (trim_units (toUpperCase (or_default (get_prop r ''FinalStatus'') []))
      = units ''DELIVERED'')"

definition deliveredData :: "row list \<Rightarrow> row list" where
  "deliveredData jsonData = filter isDelivered jsonData"

text \<open>
  The filter as the specification words it: the status cell, the empty string when the
  cell is missing, is trimmed and then compared with the wanted status ignoring case.
\<close>

definition spec_status_cell :: "row \<Rightarrow> string" where
  "spec_status_cell r = (case map_of r ''FinalStatus'' of None \<Rightarrow> '''' | Some v \<Rightarrow> v)"

definition spec_equal_ignoring_case :: "string \<Rightarrow> string \<Rightarrow> bool" where
  "spec_equal_ignoring_case a b = (toUpperCase a = toUpperCase b)"

definition spec_status_matches :: "row \<Rightarrow> bool" where
  "spec_status_matches r = spec_equal_ignoring_case (trim (spec_status_cell r)) ''DELIVERED''"

section \<open>Grouping\<close>

text \<open>
  An exception, with the text of its \<^verbatim>\<open>message\<close>: a \<^verbatim>\<open>TypeError\<close> of the engine, or an
  \<^verbatim>\<open>Error\<close> thrown by a library.
\<close>

datatype exn = TypeError string | Error string

fun message :: "exn \<Rightarrow> string" where
  "message (TypeError m) = m"
| "message (Error m) = m"

text \<open>\<^verbatim>\<open>String(row.FleeName || 'undefined').trim()\<close>\<close>

definition fleeName_of :: "row \<Rightarrow> string" where
  "fleeName_of r = trim (or_default (get_prop r ''FleeName'') ''undefined'')"

text \<open>
  The body of the \<^verbatim>\<open>forEach\<close> callback:
  \<^verbatim>\<open>if (!groupedData[fleeName]) groupedData[fleeName] = []; groupedData[fleeName].push(row)\<close>.
  An array, even an empty one, is truthy; so is every inherited value, on which the call
  of \<^verbatim>\<open>push\<close> throws.
\<close>

definition group_row :: "row \<Rightarrow> row list object \<Rightarrow> exn + row list object" where
  "group_row r groupedData =
     (let fleeName = fleeName_of r;
          groupedData1 = (case obj_get groupedData fleeName of
                            Undefined \<Rightarrow> obj_set groupedData fleeName []
                          | _ \<Rightarrow> groupedData)
      in case obj_get groupedData1 fleeName of
           Own data \<Rightarrow> Inr (obj_set groupedData1 fleeName (data @ [r]))
         | _ \<Rightarrow> Inl (TypeError ''groupedData[fleeName].push is not a function''))"

fun group_rows :: "row list \<Rightarrow> row list object \<Rightarrow> exn + row list object" where
  "group_rows [] groupedData = Inr groupedData"
| "group_rows (r # rs) groupedData =
     (case group_row r groupedData of
        Inl e \<Rightarrow> Inl e
      | Inr groupedData' \<Rightarrow> group_rows rs groupedData')"

definition groupByFleeName :: "row list \<Rightarrow> exn + row list object" where
  "groupByFleeName delivered = group_rows delivered []"

section \<open>Projection and export\<close>

text \<open>
  \<^verbatim>\<open>const newRow = { ...row }; delete newRow['sync time']; delete newRow['planDeliveryDate']\<close>
\<close>

definition project :: "row \<Rightarrow> row" where
  "project r =
     (let newRow = spread r;
          newRow = obj_delete newRow ''sync time'';
          newRow = obj_delete newRow ''planDeliveryDate''
      in newRow)"

text \<open>
  What \<^verbatim>\<open>XLSX.write\<close> serialises for one group: the sheet name, the projected rows and the
  column widths. The bytes themselves are not modelled.
\<close>

record sheet =
  sheet_name :: string
  sheet_rows :: "row list"
  sheet_cols :: "nat list"

text \<open>
  \<^verbatim>\<open>Object.keys(filteredData[0]).map(() => ({ wch: 15 }))\<close>: element 0 of an empty array
  is \<^verbatim>\<open>undefined\<close>, on which \<^verbatim>\<open>Object.keys\<close> throws.
\<close>

definition colWidths :: "row list \<Rightarrow> exn + nat list" where
  "colWidths filteredData =
     (case filteredData of
        [] \<Rightarrow> Inl (TypeError ''Cannot convert undefined or null to object'')
      | r0 # _ \<Rightarrow> Inr (map (\<lambda>_. 15) (Object_keys r0)))"

text \<open>The character class of the regular expression in \<^verbatim>\<open>fleeName.replace(..., '_')\<close>:
  less-than, greater-than, colon, double quote, slash, backslash, bar, question mark, star.\<close>

definition illegal_chars :: "char list" where
  "illegal_chars =
     [CHR ''<'', CHR ''>'', CHR '':'', CHR 0x22, CHR ''/'', CHR 0x5C, CHR ''|'', CHR ''?'',
      CHR ''*'']"

definition replace_illegal :: "string \<Rightarrow> string" where
  "replace_illegal s = map (\<lambda>c. if c \<in> set illegal_chars then CHR ''_'' else c) s"

definition cleanFleeName :: "string \<Rightarrow> string" where
  "cleanFleeName fleeName = trim (replace_illegal fleeName)"

text \<open>
  The archive under construction: JSZip keeps its files in an object keyed by entry name,
  so \<^verbatim>\<open>zip.file(name, data)\<close> with a name already present replaces that entry.
\<close>

type_synonym zip = "sheet object"

definition zip_file :: "zip \<Rightarrow> string \<Rightarrow> sheet \<Rightarrow> zip" where
  "zip_file z name data = obj_set z name data"

text \<open>
  The code of SheetJS and JSZip is not part of the repository. What their calls inside the
  \<^verbatim>\<open>try\<close> block build is kept as the data given to them (a \<^typ>\<open>sheet\<close>, a \<^typ>\<open>zip\<close>);
  whether a call throws is a parameter of the model. For each of
  \<^verbatim>\<open>XLSX.utils.json_to_sheet\<close>, \<^verbatim>\<open>XLSX.utils.book_append_sheet\<close>, \<^verbatim>\<open>XLSX.write\<close> and
  \<^verbatim>\<open>zip.generateAsync\<close>, a function gives the exception the call throws on its argument,
  or \<open>None\<close> when the call returns.
\<close>

record library =
  json_to_sheet_throws :: "row list \<Rightarrow> exn option"
  book_append_sheet_throws :: "sheet \<Rightarrow> exn option"
  write_throws :: "sheet \<Rightarrow> exn option"
  generateAsync_throws :: "zip \<Rightarrow> exn option"

text \<open>
  Two instances, for concrete runs: a library of which no call throws, and one that
  refuses a sheet name of more than 31 characters when the sheet is appended, as SheetJS
  does.
\<close>

definition quiet :: library where
  "quiet =
     \<lparr>json_to_sheet_throws = (\<lambda>_. None), book_append_sheet_throws = (\<lambda>_. None),
      write_throws = (\<lambda>_. None), generateAsync_throws = (\<lambda>_. None)\<rparr>"

definition refusing_long_names :: library where
  "refusing_long_names =
     quiet\<lparr>book_append_sheet_throws :=
             (\<lambda>sh. if 31 < length (sheet_name sh)
                   then Some (Error ''Sheet names cannot exceed 31 chars'')
                   else None)\<rparr>"

text \<open>
  \<^verbatim>\<open>Math.round(60 + (processedFiles / fileCount) * 30)\<close>, in exact arithmetic: the
  integer part of \<open>60 + 30 p / n + 1/2\<close>. The loop runs only when \<open>fileCount\<close> is positive.
\<close>

definition progressPercent :: "nat \<Rightarrow> nat \<Rightarrow> nat" where
  "progressPercent processedFiles fileCount =
     (2 * (60 * fileCount + 30 * processedFiles) + fileCount) div (2 * fileCount)"

text \<open>
  The sheet that a round of the loop builds for a group that has rows: the widths come
  from the keys of the first projected row.
\<close>

definition group_sheet :: "string \<Rightarrow> row list \<Rightarrow> sheet" where
  "group_sheet sheetName data =
     \<lparr>sheet_name = sheetName, sheet_rows = map project data,
      sheet_cols = map (\<lambda>_. 15) (Object_keys (project (hd data)))\<rparr>"

section \<open>The component state and the pipeline\<close>

datatype StatusType = idle | processing | success | error

record FileStats =
  totalRows :: nat
  uniqueFiles :: nat
  fileNames :: "string list"

text \<open>A value given to \<^verbatim>\<open>setProgress\<close>: \<^verbatim>\<open>'N%'\<close>, or the empty string that clears the bar.\<close>

datatype progress = Percent nat | Cleared

text \<open>
  The state of the component that \<^verbatim>\<open>processExcel\<close> touches. \<open>progress_log\<close> holds every
  value given to \<^verbatim>\<open>setProgress\<close>, oldest first; \<open>download\<close> is the file handed to the
  browser by \<^verbatim>\<open>downloadLink.click()\<close>, with its name.
\<close>

record component =
  status :: string
  statusType :: StatusType
  stats :: "FileStats option"
  progress_log :: "progress list"
  download :: "(string \<times> zip) option"

definition setStatus :: "string \<Rightarrow> component \<Rightarrow> component" where
  "setStatus m c = c\<lparr>status := m\<rparr>"

definition setStatusType :: "StatusType \<Rightarrow> component \<Rightarrow> component" where
  "setStatusType t c = c\<lparr>statusType := t\<rparr>"

definition setStats :: "FileStats \<Rightarrow> component \<Rightarrow> component" where
  "setStats st c = c\<lparr>stats := Some st\<rparr>"

definition setProgress :: "progress \<Rightarrow> component \<Rightarrow> component" where
  "setProgress p c = c\<lparr>progress_log := progress_log c @ [p]\<rparr>"

text \<open>The state in which a newly chosen file leaves the component.\<close>

definition file_chosen :: component where
  "file_chosen =
     \<lparr>status = [], statusType = idle, stats = None, progress_log = [], download = None\<rparr>"

text \<open>The three early returns share their shape, and so does the \<^verbatim>\<open>catch\<close> block.\<close>

definition report_error :: "string \<Rightarrow> component \<Rightarrow> component" where
  "report_error m c = setProgress Cleared (setStatusType error (setStatus m c))"

definition catch_block :: "exn \<Rightarrow> component \<Rightarrow> component" where
  "catch_block e c = report_error (''Processing failed: '' @ message e) c"

fun show_nat :: "nat \<Rightarrow> string" where
  "show_nat n =
     (if n < 10 then [''0123456789'' ! n]
      else show_nat (n div 10) @ [''0123456789'' ! (n mod 10)])"

text \<open>
  The loop \<^verbatim>\<open>for (const [fleeName, data] of Object.entries(groupedData))\<close>, over the
  entries still to come, with the archive, the counter and the component state. One
  round projects the rows, builds the sheet, reads the column widths off element 0,
  appends the sheet under the name of the source sheet, writes the workbook, stores it in
  the archive and reports the progress; an exception of any of these steps ends the loop.
\<close>

fun export_groups ::
  "library \<Rightarrow> string \<Rightarrow> nat \<Rightarrow> (string \<times> row list) list \<Rightarrow> zip \<times> nat \<times> component
   \<Rightarrow> exn \<times> component + zip \<times> component" where
  "export_groups lib sheetName fileCount [] (z, processedFiles, c) = Inr (z, c)"
| "export_groups lib sheetName fileCount ((fleeName, data) # rest) (z, processedFiles, c) =
     (let filteredData = map project data
      in case json_to_sheet_throws lib filteredData of
           Some e \<Rightarrow> Inl (e, c)
         | None \<Rightarrow>
            (case colWidths filteredData of
               Inl e \<Rightarrow> Inl (e, c)
             | Inr widths \<Rightarrow>
                 let excelBuffer =
                       \<lparr>sheet_name = sheetName, sheet_rows = filteredData,
                        sheet_cols = widths\<rparr>
                 in case book_append_sheet_throws lib excelBuffer of
                      Some e \<Rightarrow> Inl (e, c)
                    | None \<Rightarrow>
                       (case write_throws lib excelBuffer of
                          Some e \<Rightarrow> Inl (e, c)
                        | None \<Rightarrow>
                            let z' = zip_file z (cleanFleeName fleeName @ ''.xlsx'') excelBuffer;
                                processedFiles' = processedFiles + 1;
                                c' = setProgress
                                       (Percent (progressPercent processedFiles' fileCount)) c
                            in export_groups lib sheetName fileCount rest
                                 (z', processedFiles', c'))))"

text \<open>
  What reading the file gives: an exception of \<^verbatim>\<open>file.arrayBuffer\<close>, \<^verbatim>\<open>XLSX.read\<close> or
  \<^verbatim>\<open>sheet_to_json\<close>, or the name of the first sheet with the rows of \<^verbatim>\<open>sheet_to_json\<close>.
\<close>

datatype excel_file = Unreadable exn | Workbook string "row list"

definition msg_empty :: string where
  "msg_empty = ''Excel file is empty''"

definition msg_missing_column :: string where
  "msg_missing_column =
     ''Column '' @ [CHR 0x22] @ ''FleeName'' @ [CHR 0x22]
     @ '' not found. Please ensure the Excel file contains this column''"

definition msg_no_matches :: string where
  "msg_no_matches = ''No records with FinalStatus = DELIVERED found''"

text \<open>The part of \<^verbatim>\<open>processExcel\<close> after the last early return.\<close>

definition group_and_export ::
  "library \<Rightarrow> string \<Rightarrow> string \<Rightarrow> row list \<Rightarrow> component \<Rightarrow> component" where
  "group_and_export lib hubName sheetName delivered c0 =
     (let c = setProgress (Percent 50) (setStatus ''Grouping data...'' c0)
      in case groupByFleeName delivered of
           Inl e \<Rightarrow> catch_block e c
         | Inr groupedData \<Rightarrow>
             let fileCount = length (Object_keys groupedData);
                 c = setProgress (Percent 60)
                       (setStatus (''Generating '' @ show_nat fileCount @ '' files...'') c)
             in case export_groups lib sheetName fileCount (Object_entries groupedData)
                       ([], 0, c) of
                  Inl (e, c) \<Rightarrow> catch_block e c
                | Inr (z, c) \<Rightarrow>
                    let c = setProgress (Percent 95) (setStatus ''Packaging files...'' c)
                    in case generateAsync_throws lib z of
                         Some e \<Rightarrow> catch_block e c
                       | None \<Rightarrow>
                           let c = c\<lparr>download := Some (hubName @ ''.zip'', z)\<rparr>;
                               c = setStats
                                     \<lparr>totalRows = length delivered, uniqueFiles = fileCount,
                                      fileNames = take 10 (Object_keys groupedData)\<rparr> c;
                               c = setStatus
                                     (''Success! Generated '' @ show_nat fileCount
                                      @ '' Excel files (DELIVERED only) and packaged as ZIP'') c;
                               c = setStatusType success c;
                               c = setProgress (Percent 100) c
                           in setProgress Cleared c)"

definition processExcel ::
  "library \<Rightarrow> string \<Rightarrow> excel_file option \<Rightarrow> component \<Rightarrow> component" where
  "processExcel lib hubName f c0 =
     (case f of
        None \<Rightarrow> c0
      | Some content \<Rightarrow>
          let c = setProgress (Percent 10)
                    (setStatusType processing (setStatus ''Reading file...'' c0))
          in case content of
               Unreadable e \<Rightarrow> catch_block e c
             | Workbook sheetName jsonData \<Rightarrow>
                 let c = setProgress (Percent 25) c
                 in case jsonData of
                      [] \<Rightarrow> report_error msg_empty c
                    | firstRow # _ \<Rightarrow>
                        let c = setProgress (Percent 40) c
                        in if \<not> hasOwnProperty firstRow ''FleeName''
                           then report_error msg_missing_column c
                           else
                             let delivered = deliveredData jsonData
                             in if length delivered = 0
                                then report_error msg_no_matches c
                                else group_and_export lib hubName sheetName delivered c)"

section \<open>First-occurrence order\<close>

text \<open>
  The order in which the specification enumerates groups: every key once, at the place of
  its first occurrence.
\<close>

fun first_seen :: "'a list \<Rightarrow> 'a list" where
  "first_seen [] = []"
| "first_seen (x # xs) = x # filter (\<lambda>y. y \<noteq> x) (first_seen xs)"

section \<open>Properties of the row filter\<close>

lemma isWhiteSpace_unit_of_char: "isWhiteSpace_unit (of_char c) = isWhiteSpace c"
  by (simp add: isWhiteSpace_def)

lemma isWhiteSpace_unit_low:
  "n < 256 \<Longrightarrow> isWhiteSpace_unit n = (n \<in> {9, 10, 11, 12, 13, 32, 160})"
  unfolding isWhiteSpace_unit_def by simp

lemma not_isWhiteSpace_unit_letter:
  "65 \<le> n \<Longrightarrow> n \<noteq> 160 \<Longrightarrow> n < 5760 \<Longrightarrow> \<not> isWhiteSpace_unit n"
  unfolding isWhiteSpace_unit_def by simp

lemma toUpperCase_char_space: "isWhiteSpace c \<Longrightarrow> toUpperCase_char c = [of_char c]"
proof -
  assume "isWhiteSpace c"
  then have "of_char c \<in> {9, 10, 11, 12, 13, 32, 160 :: nat}"
    unfolding isWhiteSpace_def by (simp add: isWhiteSpace_unit_low)
  then show ?thesis
    unfolding toUpperCase_char_def Let_def by auto
qed

lemma toUpperCase_char_letter:
  assumes "\<not> isWhiteSpace c"
  shows "toUpperCase_char c \<noteq> []"
    and "\<not> isWhiteSpace_unit (hd (toUpperCase_char c))"
    and "\<not> isWhiteSpace_unit (last (toUpperCase_char c))"
proof -
  define n :: nat where "n = of_char c"
  have ws: "\<not> isWhiteSpace_unit n"
    using assms unfolding n_def isWhiteSpace_def .
  have up: "toUpperCase_char c =
      (if 0x61 \<le> n \<and> n \<le> 0x7A then [n - 0x20]
         else if n = 0xB5 then [0x39C]
         else if n = 0xDF then [0x53, 0x53]
         else if 0xE0 \<le> n \<and> n \<le> 0xFE \<and> n \<noteq> 0xF7 then [n - 0x20]
         else if n = 0xFF then [0x178]
         else [n])"
    unfolding toUpperCase_char_def Let_def n_def ..
  show "toUpperCase_char c \<noteq> []"
    unfolding up by simp
  consider (lower) "0x61 \<le> n \<and> n \<le> 0x7A"
    | (micro) "n = 0xB5" | (sharp) "n = 0xDF"
    | (latin) "0xE0 \<le> n \<and> n \<le> 0xFE \<and> n \<noteq> 0xF7"
    | (y) "n = 0xFF"
    | (other) "\<not> (0x61 \<le> n \<and> n \<le> 0x7A) \<and> n \<noteq> 0xB5 \<and> n \<noteq> 0xDF
               \<and> \<not> (0xE0 \<le> n \<and> n \<le> 0xFE \<and> n \<noteq> 0xF7) \<and> n \<noteq> 0xFF"
    by blast
  then have "\<not> isWhiteSpace_unit (hd (toUpperCase_char c))
             \<and> \<not> isWhiteSpace_unit (last (toUpperCase_char c))"
  proof cases
    case lower
    then have "toUpperCase_char c = [n - 0x20]" unfolding up by simp
    moreover from lower have "\<not> isWhiteSpace_unit (n - 0x20)"
      by (intro not_isWhiteSpace_unit_letter) arith+
    ultimately show ?thesis by simp
  next
    case micro
    then have "toUpperCase_char c = [0x39C]" unfolding up by simp
    then show ?thesis by (simp add: isWhiteSpace_unit_def)
  next
    case sharp
    then have "toUpperCase_char c = [0x53, 0x53]" unfolding up by simp
    then show ?thesis by (simp add: isWhiteSpace_unit_def)
  next
    case latin
    then have "toUpperCase_char c = [n - 0x20]" unfolding up by simp
    moreover from latin have "\<not> isWhiteSpace_unit (n - 0x20)"
      by (intro not_isWhiteSpace_unit_letter) arith+
    ultimately show ?thesis by simp
  next
    case y
    then have "toUpperCase_char c = [0x178]" unfolding up by simp
    then show ?thesis by (simp add: isWhiteSpace_unit_def)
  next
    case other
    then have "toUpperCase_char c = [n]" unfolding up by (simp only: if_False simp_thms)
    with ws show ?thesis by simp
  qed
  then show "\<not> isWhiteSpace_unit (hd (toUpperCase_char c))"
    and "\<not> isWhiteSpace_unit (last (toUpperCase_char c))"
    by blast+
qed

lemma dropWhile_concat_map:
  assumes sp: "\<And>c. isWhiteSpace c \<Longrightarrow> f c = [of_char c]"
    and le: "\<And>c. \<not> isWhiteSpace c \<Longrightarrow> f c \<noteq> [] \<and> \<not> isWhiteSpace_unit (hd (f c))"
  shows "dropWhile isWhiteSpace_unit (concat (map f s)) = concat (map f (dropWhile isWhiteSpace s))"
proof (induction s)
  case Nil
  then show ?case by simp
next
  case (Cons c s)
  show ?case
  proof (cases "isWhiteSpace c")
    case True
    with Cons.IH sp [OF True] show ?thesis
      by (simp add: isWhiteSpace_unit_of_char)
  next
    case False
    from le [OF False] obtain u us where "f c = u # us" and "\<not> isWhiteSpace_unit u"
      by (cases "f c") auto
    with False show ?thesis by simp
  qed
qed

lemma trim_units_toUpperCase: "trim_units (toUpperCase s) = toUpperCase (trim s)"
proof -
  have front: "dropWhile isWhiteSpace_unit (toUpperCase t) = toUpperCase (dropWhile isWhiteSpace t)"
    for t
    unfolding toUpperCase_def
    by (rule dropWhile_concat_map) (simp_all add: toUpperCase_char_space toUpperCase_char_letter)
  have rear: "dropWhile isWhiteSpace_unit (rev (toUpperCase t))
              = rev (toUpperCase (rev (dropWhile isWhiteSpace (rev t))))" for t
  proof -
    have "rev (toUpperCase t) = concat (map (\<lambda>c. rev (toUpperCase_char c)) (rev t))" for t
      unfolding toUpperCase_def by (simp add: rev_concat rev_map comp_def)
    moreover have "dropWhile isWhiteSpace_unit (concat (map (\<lambda>c. rev (toUpperCase_char c)) u))
          = concat (map (\<lambda>c. rev (toUpperCase_char c)) (dropWhile isWhiteSpace u))" for u
      by (rule dropWhile_concat_map)
         (simp_all add: toUpperCase_char_space toUpperCase_char_letter hd_rev)
    ultimately show ?thesis by simp
  qed
  show ?thesis
    unfolding trim_units_def trim_def trimStart_def trimEnd_def
    by (simp only: front rear rev_rev_ident)
qed

lemma toUpperCase_DELIVERED: "toUpperCase ''DELIVERED'' = units ''DELIVERED''"
  by (simp add: toUpperCase_def toUpperCase_char_def units_def)

lemma trim_Nil: "trim [] = []"
  by (simp add: trim_def trimStart_def trimEnd_def)

lemma isDelivered_iff_spec: "isDelivered r = spec_status_matches r"
proof (cases "map_of r ''FinalStatus''")
  case None
  then show ?thesis
    by (simp add: isDelivered_def spec_status_matches_def spec_equal_ignoring_case_def
        spec_status_cell_def get_prop_def or_default_def trim_units_toUpperCase
        toUpperCase_DELIVERED)
next
  case (Some v)
  then show ?thesis
    by (simp add: isDelivered_def spec_status_matches_def spec_equal_ignoring_case_def
        spec_status_cell_def get_prop_def or_default_def trim_units_toUpperCase
        toUpperCase_DELIVERED)
qed

lemmas string_eval =
  trim_def trimStart_def trimEnd_def isWhiteSpace_def isWhiteSpace_unit_def trim_units_def
  toUpperCase_def toUpperCase_char_def units_def

text \<open>
  Claim C1. The rows kept by the filter are exactly the rows whose \<^verbatim>\<open>FinalStatus\<close> cell,
  with the white space of both ends removed, equals \<^verbatim>\<open>DELIVERED\<close> up to case; they come
  in the order of the input, as a subsequence of it; and a row without the cell is read as
  having the empty string there and is never kept.
\<close>

theorem rowfilter_keeps_delivered:
  "deliveredData jsonData = filter spec_status_matches jsonData
   \<and> subseq (deliveredData jsonData) jsonData
   \<and> (\<forall>r. get_prop r ''FinalStatus'' = None \<longrightarrow>
          or_default (get_prop r ''FinalStatus'') [] = [] \<and> \<not> isDelivered r)"
proof (intro conjI allI impI)
  show "deliveredData jsonData = filter spec_status_matches jsonData"
    unfolding deliveredData_def by (rule filter_cong) (simp_all add: isDelivered_iff_spec)
  show "subseq (deliveredData jsonData) jsonData"
    unfolding deliveredData_def by (rule subseq_filter_left)
next
  fix r :: row
  assume none: "get_prop r ''FinalStatus'' = None"
  then show "or_default (get_prop r ''FinalStatus'') [] = []"
    by (simp add: or_default_def)
  from none show "\<not> isDelivered r"
    by (simp add: isDelivered_def or_default_def toUpperCase_def trim_units_def units_def)
qed

theorem rowfilter_keeps_delivered_witness:
  "deliveredData
     [[(''FleeName'', ''X''), (''FinalStatus'', '' Delivered '')],
      [(''FleeName'', ''Y'')],
      [(''FleeName'', ''Z''), (''FinalStatus'', ''IN_TRANSIT'')],
      [(''FleeName'', ''W''), (''FinalStatus'', ''delivered'')],
      [(''FleeName'', ''V''), (''FinalStatus'', [CHR 0xA0, CHR ''D'', CHR ''e'', CHR ''l'',
         CHR ''i'', CHR ''v'', CHR ''e'', CHR ''r'', CHR ''e'', CHR ''d'', CHR 0xA0])],
      [(''FleeName'', ''U''), (''FinalStatus'', ''DELIVERED.'')]]
   = [[(''FleeName'', ''X''), (''FinalStatus'', '' Delivered '')],
      [(''FleeName'', ''W''), (''FinalStatus'', ''delivered'')],
      [(''FleeName'', ''V''), (''FinalStatus'', [CHR 0xA0, CHR ''D'', CHR ''e'', CHR ''l'',
         CHR ''i'', CHR ''v'', CHR ''e'', CHR ''r'', CHR ''e'', CHR ''d'', CHR 0xA0])]]
   \<and> get_prop [(''FleeName'', ''Y'')] ''FinalStatus'' = None
   \<and> \<not> isDelivered [(''FleeName'', ''Y'')]"
proof -
  have cell: "get_prop [(''FleeName'', ''Y'')] ''FinalStatus'' = None"
    by (simp add: get_prop_def)
  have m: "spec_status_matches [(''FleeName'', ''X''), (''FinalStatus'', '' Delivered '')]"
      "\<not> spec_status_matches [(''FleeName'', ''Y'')]"
      "\<not> spec_status_matches [(''FleeName'', ''Z''), (''FinalStatus'', ''IN_TRANSIT'')]"
      "spec_status_matches [(''FleeName'', ''W''), (''FinalStatus'', ''delivered'')]"
      "spec_status_matches
         [(''FleeName'', ''V''), (''FinalStatus'', [CHR 0xA0, CHR ''D'', CHR ''e'', CHR ''l'',
            CHR ''i'', CHR ''v'', CHR ''e'', CHR ''r'', CHR ''e'', CHR ''d'', CHR 0xA0])]"
      "\<not> spec_status_matches [(''FleeName'', ''U''), (''FinalStatus'', ''DELIVERED.'')]"
    by (simp_all add: spec_status_matches_def spec_equal_ignoring_case_def spec_status_cell_def
        string_eval)
  from rowfilter_keeps_delivered
    [of "[[(''FleeName'', ''X''), (''FinalStatus'', '' Delivered '')],
      [(''FleeName'', ''Y'')],
      [(''FleeName'', ''Z''), (''FinalStatus'', ''IN_TRANSIT'')],
      [(''FleeName'', ''W''), (''FinalStatus'', ''delivered'')],
      [(''FleeName'', ''V''), (''FinalStatus'', [CHR 0xA0, CHR ''D'', CHR ''e'', CHR ''l'',
         CHR ''i'', CHR ''v'', CHR ''e'', CHR ''r'', CHR ''e'', CHR ''d'', CHR 0xA0])],
      [(''FleeName'', ''U''), (''FinalStatus'', ''DELIVERED.'')]]"]
  show ?thesis using cell m by simp
qed

section \<open>Properties of plain objects and of the projection\<close>

lemma Object_entries_filter:
  "Object_entries (filter Q obj) = filter Q (Object_entries obj)"
  unfolding Object_entries_def
  by (simp add: filter_sort conj_commute)

lemma Object_entries_idem: "Object_entries (Object_entries obj) = Object_entries obj"
proof -
  define P where "P = (\<lambda>(k, v :: 'a). is_array_index k)"
  define f where "f = (\<lambda>(k, v :: 'a). decimal_value k)"
  define A where "A = sort_key f (filter P obj)"
  define B where "B = filter (\<lambda>x. \<not> P x) obj"
  have AP: "filter P A = A" "filter (\<lambda>x. \<not> P x) A = []"
    unfolding A_def by (simp_all add: filter_sort)
  have BP: "filter P B = []" "filter (\<lambda>x. \<not> P x) B = B"
    unfolding B_def by simp_all
  have sA: "sort_key f A = A"
    unfolding A_def by (simp add: sort_key_id_if_sorted)
  have E: "Object_entries obj = A @ B"
    unfolding Object_entries_def A_def B_def P_def f_def
    by (simp add: case_prod_unfold)
  have "Object_entries (A @ B) = sort_key f (filter P (A @ B)) @ filter (\<lambda>x. \<not> P x) (A @ B)"
    unfolding Object_entries_def P_def f_def by (simp add: case_prod_unfold)
  also have "\<dots> = A @ B"
    by (simp add: AP BP sA)
  finally show ?thesis by (simp add: E)
qed

lemma map_of_filter_key:
  "(\<And>v. Q (k, v)) \<Longrightarrow> map_of (filter Q xs) k = map_of xs k"
  by (induction xs) auto

lemma map_of_filter_key_same:
  "map_of (filter (\<lambda>(k', v). k' = k) xs) k = map_of xs k"
  by (induction xs) auto

lemma map_of_filter_out:
  "(\<And>v. \<not> Q (k, v)) \<Longrightarrow> map_of (filter Q xs) k = None"
  by (induction xs) auto

lemma map_of_sort_key:
  "map_of (sort_key (\<lambda>(k, v). g k) xs) k = map_of xs k"
proof -
  have "filter (\<lambda>(k', v). k' = k) (sort_key (\<lambda>(k, v). g k) xs)
        = filter (\<lambda>(k', v). k' = k) (filter (\<lambda>y. (\<lambda>(k, v). g k) y = g k) (sort_key (\<lambda>(k, v). g k) xs))"
    by (auto intro!: filter_cong)
  also have "\<dots> = filter (\<lambda>(k', v). k' = k) (filter (\<lambda>y. (\<lambda>(k, v). g k) y = g k) xs)"
    by (simp only: sort_key_stable)
  also have "\<dots> = filter (\<lambda>(k', v). k' = k) xs"
    by (auto intro!: filter_cong)
  finally have "map_of (filter (\<lambda>(k', v). k' = k) (sort_key (\<lambda>(k, v). g k) xs)) k
      = map_of (filter (\<lambda>(k', v). k' = k) xs) k" by simp
  then show ?thesis by (simp only: map_of_filter_key_same)
qed

lemma map_of_Object_entries: "map_of (Object_entries obj) k = map_of obj k"
proof (cases "is_array_index k")
  case True
  then show ?thesis
    unfolding Object_entries_def
    by (simp add: map_add_def map_of_filter_out map_of_sort_key map_of_filter_key split: option.splits)
next
  case False
  then show ?thesis
    unfolding Object_entries_def
    by (simp add: map_add_def map_of_filter_out map_of_sort_key map_of_filter_key split: option.splits)
qed

lemmas array_index_eval =
  is_array_index_def isDigit_def decimal_value_def digit_value_def

lemma project_eq:
  "project r = filter (\<lambda>(k, v). k \<noteq> ''sync time'' \<and> k \<noteq> ''planDeliveryDate'') (Object_entries r)"
  unfolding project_def Let_def spread_def obj_delete_def
  by (auto intro!: filter_cong)

text \<open>
  Claim C4. The projected row is a copy of the row without the columns \<^verbatim>\<open>sync time\<close>
  and \<^verbatim>\<open>planDeliveryDate\<close>: the remaining columns enumerate in their order in the row,
  every other column keeps its presence and its value, the two columns are absent from the
  result, and a row that has neither is copied unchanged.
\<close>

theorem project_removes_exactly_two:
  "Object_keys (project r)
     = filter (\<lambda>k. k \<noteq> ''sync time'' \<and> k \<noteq> ''planDeliveryDate'') (Object_keys r)
   \<and> (\<forall>k. k \<noteq> ''sync time'' \<and> k \<noteq> ''planDeliveryDate'' \<longrightarrow>
          map_of (project r) k = map_of r k)
   \<and> map_of (project r) ''sync time'' = None
   \<and> map_of (project r) ''planDeliveryDate'' = None
   \<and> (\<not> hasOwnProperty r ''sync time'' \<and> \<not> hasOwnProperty r ''planDeliveryDate'' \<longrightarrow>
        project r = spread r)"
proof (intro conjI allI impI)
  show "Object_keys (project r)
     = filter (\<lambda>k. k \<noteq> ''sync time'' \<and> k \<noteq> ''planDeliveryDate'') (Object_keys r)"
    unfolding Object_keys_def project_eq Object_entries_filter Object_entries_idem
    by (simp add: filter_map comp_def case_prod_unfold)
next
  fix k :: string
  assume "k \<noteq> ''sync time'' \<and> k \<noteq> ''planDeliveryDate''"
  then show "map_of (project r) k = map_of r k"
    unfolding project_eq by (simp add: map_of_filter_key map_of_Object_entries)
next
  show "map_of (project r) ''sync time'' = None"
    unfolding project_eq by (simp add: map_of_filter_out)
  show "map_of (project r) ''planDeliveryDate'' = None"
    unfolding project_eq by (simp add: map_of_filter_out)
next
  assume a: "\<not> hasOwnProperty r ''sync time'' \<and> \<not> hasOwnProperty r ''planDeliveryDate''"
  have "set (Object_entries r) = set r"
    unfolding Object_entries_def by auto
  with a have "\<forall>x \<in> set (Object_entries r). (\<lambda>(k, v). k \<noteq> ''sync time'' \<and> k \<noteq> ''planDeliveryDate'') x"
    unfolding hasOwnProperty_def by force
  then show "project r = spread r"
    unfolding project_eq spread_def by (simp only: filter_True)
qed


theorem project_removes_exactly_two_witness:
  "Object_keys (project [(''A'', ''1''), (''sync time'', ''t''), (''2024'', ''x''),
                         (''planDeliveryDate'', ''d''), (''B'', ''2'')])
     = [''2024'', ''A'', ''B'']
   \<and> map_of (project [(''A'', ''1''), (''sync time'', ''t''), (''2024'', ''x''),
                       (''planDeliveryDate'', ''d''), (''B'', ''2'')]) ''B'' = Some ''2''
   \<and> project [(''A'', ''1''), (''B'', ''2'')] = [(''A'', ''1''), (''B'', ''2'')]"
proof -
  have keys: "Object_keys [(''A'', ''1''), (''sync time'', ''t''), (''2024'', ''x''),
                           (''planDeliveryDate'', ''d''), (''B'', ''2'')]
        = [''2024'', ''A'', ''sync time'', ''planDeliveryDate'', ''B'']"
    by (simp add: Object_keys_def Object_entries_def array_index_eval)
  have absent: "\<not> hasOwnProperty [(''A'', ''1''), (''B'', ''2'')] ''sync time''
       \<and> \<not> hasOwnProperty [(''A'', ''1''), (''B'', ''2'')] ''planDeliveryDate''"
    by (simp add: hasOwnProperty_def)
  have copy: "spread [(''A'', ''1''), (''B'', ''2'')] = [(''A'', ''1''), (''B'', ''2'')]"
    by (simp add: spread_def Object_entries_def array_index_eval)
  from project_removes_exactly_two
         [of "[(''A'', ''1''), (''sync time'', ''t''), (''2024'', ''x''),
               (''planDeliveryDate'', ''d''), (''B'', ''2'')]"]
       project_removes_exactly_two [of "[(''A'', ''1''), (''B'', ''2'')]"]
  show ?thesis using keys absent copy by simp
qed

section \<open>Properties of the grouping\<close>

lemma set_first_seen: "set (first_seen xs) = set xs"
  by (induction xs) auto

lemma distinct_first_seen: "distinct (first_seen xs)"
  by (induction xs) (auto simp: set_first_seen)

lemma first_seen_snoc:
  "first_seen (xs @ [x]) = (if x \<in> set xs then first_seen xs else first_seen xs @ [x])"
  by (induction xs) (auto simp: set_first_seen)

lemma map_insort_key_fst:
  "map fst (insort_key (\<lambda>p. g (fst p)) x xs) = insort_key g (fst x) (map fst xs)"
  by (induction xs) auto

lemma map_sort_key_fst:
  "map fst (sort_key (\<lambda>p. g (fst p)) xs) = sort_key g (map fst xs)"
  by (induction xs) (simp_all add: map_insort_key_fst)

lemma Object_keys_eq:
  "Object_keys obj = sort_key decimal_value (filter is_array_index (map fst obj))
                     @ filter (\<lambda>k. \<not> is_array_index k) (map fst obj)"
  unfolding Object_keys_def Object_entries_def
  by (simp add: case_prod_unfold map_sort_key_fst filter_map comp_def)

lemma mset_Object_entries: "mset (Object_entries obj) = mset obj"
  unfolding Object_entries_def by simp

lemma set_Object_entries: "set (Object_entries obj) = set obj"
  unfolding Object_entries_def by auto

lemma length_Object_entries: "length (Object_entries obj) = length obj"
  using mset_Object_entries [of obj] by (metis size_mset)

lemma distinct_Object_keys: "distinct (Object_keys obj) = distinct (map fst obj)"
proof -
  have "mset (Object_keys obj) = mset (map fst obj)"
    unfolding Object_keys_def by (simp add: mset_Object_entries)
  then show ?thesis by (rule mset_eq_imp_distinct_iff)
qed

lemma mset_concat_Object_entries:
  "mset (concat (map snd (Object_entries obj))) = mset (concat (map snd obj))"
proof -
  have "mset (map snd (Object_entries obj)) = mset (map snd obj)"
    by (simp add: mset_Object_entries)
  then show ?thesis
    by (metis mset_concat mset_map sum_mset_sum_list)
qed


text \<open>One step of the grouping loop, on an object with distinct keys.\<close>

lemma group_row_known:
  assumes "distinct (map fst g)" and "fleeName_of r \<in> set (map fst g)"
  shows "group_row r g
         = Inr (map (\<lambda>(k, d). if k = fleeName_of r then (k, d @ [r]) else (k, d)) g)"
proof -
  from assms(2) obtain data where data: "map_of g (fleeName_of r) = Some data"
    by (metis map_of_eq_None_iff not_Some_eq set_map)
  have same: "\<And>k d. (k, d) \<in> set g \<Longrightarrow> k = fleeName_of r \<Longrightarrow> d = data"
    using assms(1) data by (metis map_of_is_SomeI option.inject)
  have "map (\<lambda>(k', v'). if k' = fleeName_of r then (k', data @ [r]) else (k', v')) g
        = map (\<lambda>(k, d). if k = fleeName_of r then (k, d @ [r]) else (k, d)) g"
    by (rule map_cong) (auto dest: same)
  with data assms(2) show ?thesis
    by (simp add: group_row_def obj_get_def obj_set_def)
qed

lemma group_row_inherited:
  assumes "fleeName_of r \<notin> set (map fst g)"
    and "fleeName_of r \<in> set Object_prototype_keys"
  shows "group_row r g = Inl (TypeError ''groupedData[fleeName].push is not a function'')"
proof -
  from assms(1) have "map_of g (fleeName_of r) = None"
    by (simp add: map_of_eq_None_iff)
  with assms(2) show ?thesis
    by (simp add: group_row_def obj_get_def)
qed

lemma group_row_new:
  assumes "fleeName_of r \<notin> set (map fst g)"
    and "fleeName_of r \<notin> set Object_prototype_keys"
  shows "group_row r g = Inr (g @ [(fleeName_of r, [r])])"
proof -
  let ?k = "fleeName_of r"
  from assms(1) have none: "map_of g ?k = None"
    by (simp add: map_of_eq_None_iff)
  have keep: "\<And>v. map (\<lambda>(k', v'). if k' = ?k then (k', v) else (k', v')) g = g"
    using assms(1) by (induction g) auto
  have 1: "obj_get g ?k = Undefined"
    using none assms(2) by (simp add: obj_get_def)
  have 2: "obj_set g ?k [] = g @ [(?k, [])]"
    using assms(1) by (simp add: obj_set_def)
  have 3: "obj_get (g @ [(?k, [])]) ?k = Own []"
    using none by (simp add: obj_get_def map_add_def)
  have 4: "obj_set (g @ [(?k, [])]) ?k ([] @ [r]) = g @ [(?k, [r])]"
    by (simp add: obj_set_def keep)
  show ?thesis
    unfolding group_row_def Let_def by (simp only: 1 2 3 4 js_lookup.case)
qed


lemma mset_concat_push:
  assumes "distinct (map fst g)" and "k0 \<in> set (map fst g)"
  shows "mset (concat (map snd (map (\<lambda>(k, d). if k = k0 then (k, d @ [r]) else (k, d)) g)))
         = add_mset r (mset (concat (map snd g)))"
  using assms
proof (induction g)
  case Nil
  then show ?case by simp
next
  case (Cons p g)
  obtain k d where p: "p = (k, d)" by (cases p)
  show ?case
  proof (cases "k = k0")
    case True
    with Cons.prems p have "k0 \<notin> set (map fst g)" by auto
    then have "map (\<lambda>(k, d). if k = k0 then (k, d @ [r]) else (k, d)) g = g"
      by (induction g) auto
    with True p show ?thesis by simp
  next
    case False
    with Cons.prems p have "distinct (map fst g)" "k0 \<in> set (map fst g)" by auto
    with Cons.IH False p show ?thesis by simp
  qed
qed

lemma group_row_invariant:
  assumes step: "group_row r g = Inr g1"
    and dist: "distinct (map fst g)"
    and keys: "map fst g = first_seen (map fleeName_of seen)"
    and grps: "\<forall>(k, d) \<in> set g. d = filter (\<lambda>r. fleeName_of r = k) seen"
    and rows: "mset (concat (map snd g)) = mset seen"
  shows "distinct (map fst g1)"
    and "map fst g1 = first_seen (map fleeName_of (seen @ [r]))"
    and "\<forall>(k, d) \<in> set g1. d = filter (\<lambda>r. fleeName_of r = k) (seen @ [r])"
    and "mset (concat (map snd g1)) = mset (seen @ [r])"
proof -
  let ?k = "fleeName_of r"
  have keyset: "set (map fst g) = set (map fleeName_of seen)"
    using keys by (simp add: set_first_seen)
  have all: "distinct (map fst g1)
      \<and> map fst g1 = first_seen (map fleeName_of (seen @ [r]))
      \<and> (\<forall>(k, d) \<in> set g1. d = filter (\<lambda>r. fleeName_of r = k) (seen @ [r]))
      \<and> mset (concat (map snd g1)) = mset (seen @ [r])"
  proof (cases "?k \<in> set (map fst g)")
    case True
    with step dist have g1: "g1 = map (\<lambda>(k, d). if k = ?k then (k, d @ [r]) else (k, d)) g"
      by (simp add: group_row_known)
    have fst1: "map fst g1 = map fst g"
      unfolding g1 by (induction g) auto
    from True keyset have old: "?k \<in> set (map fleeName_of seen)" by simp
    have "\<forall>(k, d) \<in> set g1. d = filter (\<lambda>r. fleeName_of r = k) (seen @ [r])"
      unfolding g1 using grps by (auto split: if_splits)
    moreover have "mset (concat (map snd g1)) = mset (seen @ [r])"
      unfolding g1 using mset_concat_push [OF dist True] rows by simp
    ultimately show "distinct (map fst g1)
      \<and> map fst g1 = first_seen (map fleeName_of (seen @ [r]))
      \<and> (\<forall>(k, d) \<in> set g1. d = filter (\<lambda>r. fleeName_of r = k) (seen @ [r]))
      \<and> mset (concat (map snd g1)) = mset (seen @ [r])"
      using fst1 dist keys old by (simp add: first_seen_snoc)
  next
    case False
    have "?k \<notin> set Object_prototype_keys"
    proof
      assume "?k \<in> set Object_prototype_keys"
      with False have "group_row r g = Inl (TypeError ''groupedData[fleeName].push is not a function'')"
        by (rule group_row_inherited)
      with step show False by simp
    qed
    with False step have g1: "g1 = g @ [(?k, [r])]"
      by (simp add: group_row_new)
    from False keyset have new: "?k \<notin> set (map fleeName_of seen)" by simp
    then have none: "filter (\<lambda>r'. fleeName_of r' = ?k) seen = []"
      by (force simp: filter_empty_conv image_iff)
    have "\<forall>(k, d) \<in> set g1. d = filter (\<lambda>r. fleeName_of r = k) (seen @ [r])"
      unfolding g1 using grps False none by (auto simp: rev_image_eqI)
    then show "distinct (map fst g1)
      \<and> map fst g1 = first_seen (map fleeName_of (seen @ [r]))
      \<and> (\<forall>(k, d) \<in> set g1. d = filter (\<lambda>r. fleeName_of r = k) (seen @ [r]))
      \<and> mset (concat (map snd g1)) = mset (seen @ [r])"
      using g1 dist keys new False rows by (simp add: first_seen_snoc)
  qed
  from all show "distinct (map fst g1)"
    and "map fst g1 = first_seen (map fleeName_of (seen @ [r]))"
    and "\<forall>(k, d) \<in> set g1. d = filter (\<lambda>r. fleeName_of r = k) (seen @ [r])"
    and "mset (concat (map snd g1)) = mset (seen @ [r])"
    by blast+
qed

lemma group_rows_invariant:
  assumes "group_rows rs g = Inr g'"
    and "distinct (map fst g)"
    and "map fst g = first_seen (map fleeName_of seen)"
    and "\<forall>(k, d) \<in> set g. d = filter (\<lambda>r. fleeName_of r = k) seen"
    and "mset (concat (map snd g)) = mset seen"
  shows "distinct (map fst g')
    \<and> map fst g' = first_seen (map fleeName_of (seen @ rs))
    \<and> (\<forall>(k, d) \<in> set g'. d = filter (\<lambda>r. fleeName_of r = k) (seen @ rs))
    \<and> mset (concat (map snd g')) = mset (seen @ rs)"
  using assms
proof (induction rs arbitrary: g seen)
  case Nil
  then show ?case by simp
next
  case (Cons r rs)
  from Cons.prems(1) obtain g1 where step: "group_row r g = Inr g1"
    and rest: "group_rows rs g1 = Inr g'"
    by (auto split: sum.splits)
  note inv = group_row_invariant [OF step Cons.prems(2-5)]
  from Cons.IH [OF rest inv] show ?case by (simp add: distinct_first_seen)
qed

lemma groupByFleeName_invariant:
  assumes "groupByFleeName delivered = Inr groupedData"
  shows "distinct (map fst groupedData)"
    and "map fst groupedData = first_seen (map fleeName_of delivered)"
    and "\<forall>(k, d) \<in> set groupedData. d = filter (\<lambda>r. fleeName_of r = k) delivered"
    and "mset (concat (map snd groupedData)) = mset delivered"
  using group_rows_invariant [of delivered "[]" groupedData "[]"] assms
  by (simp_all add: groupByFleeName_def distinct_first_seen)

lemma group_rows_completes_iff:
  assumes "distinct (map fst g)"
    and "set (map fst g) \<inter> set Object_prototype_keys = {}"
  shows "(\<exists>g'. group_rows rs g = Inr g')
         \<longleftrightarrow> (\<forall>r \<in> set rs. fleeName_of r \<notin> set Object_prototype_keys)"
  using assms
proof (induction rs arbitrary: g)
  case Nil
  then show ?case by simp
next
  case (Cons r rs)
  let ?k = "fleeName_of r"
  show ?case
  proof (cases "?k \<in> set (map fst g)")
    case True
    let ?g1 = "map (\<lambda>(k, d). if k = ?k then (k, d @ [r]) else (k, d)) g"
    have step: "group_row r g = Inr ?g1"
      using Cons.prems(1) True by (rule group_row_known)
    have fst1: "map fst ?g1 = map fst g"
      by (induction g) auto
    from True Cons.prems(2) have ok: "?k \<notin> set Object_prototype_keys" by auto
    have d1: "distinct (map fst ?g1)"
      and i1: "set (map fst ?g1) \<inter> set Object_prototype_keys = {}"
      using Cons.prems by (simp_all only: fst1)
    have "group_rows (r # rs) g = group_rows rs ?g1"
      by (simp add: step)
    with Cons.IH [OF d1 i1] ok show ?thesis by simp
  next
    case False
    show ?thesis
    proof (cases "?k \<in> set Object_prototype_keys")
      case True
      with False have "group_row r g = Inl (TypeError ''groupedData[fleeName].push is not a function'')"
        by (rule group_row_inherited)
      with True show ?thesis by auto
    next
      case ok: False
      with False have step: "group_row r g = Inr (g @ [(?k, [r])])"
        by (rule group_row_new)
      have d1: "distinct (map fst (g @ [(?k, [r])]))"
        and i1: "set (map fst (g @ [(?k, [r])])) \<inter> set Object_prototype_keys = {}"
        using Cons.prems False ok by auto
      have "group_rows (r # rs) g = group_rows rs (g @ [(?k, [r])])"
        by (simp add: step)
      with Cons.IH [OF d1 i1] ok show ?thesis by simp
    qed
  qed
qed

lemma groupByFleeName_completes_iff:
  "(\<exists>groupedData. groupByFleeName delivered = Inr groupedData)
   \<longleftrightarrow> (\<forall>r \<in> set delivered. fleeName_of r \<notin> set Object_prototype_keys)"
  unfolding groupByFleeName_def by (rule group_rows_completes_iff) simp_all

lemmas group_eval =
  groupByFleeName_def group_row_def obj_get_def obj_set_def Object_prototype_keys_def
  fleeName_of_def get_prop_def or_default_def trim_def trimStart_def trimEnd_def
  isWhiteSpace_def isWhiteSpace_unit_def

text \<open>
  Claim C3, as amended. When the grouping completes, the groups are a partition of the
  filtered rows: the keys are distinct, the rows of all groups together are the filtered
  rows (each as often as it occurs there), and the group of a key holds exactly the rows
  with that key, in their order. The groups enumerate with the keys that are array
  indices first, in ascending numeric order, followed by the other keys in the order of
  their first occurrence; without array-index keys this is first-occurrence order.
\<close>

theorem partition_groups:
  assumes "groupByFleeName delivered = Inr groupedData"
  shows "distinct (Object_keys groupedData)
    \<and> mset (concat (map snd (Object_entries groupedData))) = mset delivered
    \<and> (\<forall>(k, data) \<in> set (Object_entries groupedData).
          data = filter (\<lambda>r. fleeName_of r = k) delivered)
    \<and> Object_keys groupedData
        = sort_key decimal_value
            (filter is_array_index (first_seen (map fleeName_of delivered)))
          @ filter (\<lambda>k. \<not> is_array_index k) (first_seen (map fleeName_of delivered))
    \<and> ((\<forall>r \<in> set delivered. \<not> is_array_index (fleeName_of r))
         \<longrightarrow> Object_keys groupedData = first_seen (map fleeName_of delivered))"
proof -
  note inv = groupByFleeName_invariant [OF assms]
  have keys: "Object_keys groupedData
        = sort_key decimal_value
            (filter is_array_index (first_seen (map fleeName_of delivered)))
          @ filter (\<lambda>k. \<not> is_array_index k) (first_seen (map fleeName_of delivered))"
    by (simp add: Object_keys_eq inv(2))
  have plain: "Object_keys groupedData = first_seen (map fleeName_of delivered)"
    if "\<forall>r \<in> set delivered. \<not> is_array_index (fleeName_of r)"
  proof -
    from that have "\<forall>k \<in> set (first_seen (map fleeName_of delivered)). \<not> is_array_index k"
      by (auto simp: set_first_seen)
    then have "filter is_array_index (first_seen (map fleeName_of delivered)) = []"
      and "filter (\<lambda>k. \<not> is_array_index k) (first_seen (map fleeName_of delivered))
           = first_seen (map fleeName_of delivered)"
      by (simp_all add: filter_empty_conv)
    with keys show ?thesis by simp
  qed
  show ?thesis
  proof (intro conjI impI)
    show "distinct (Object_keys groupedData)"
      using inv(1) by (simp only: distinct_Object_keys)
    show "mset (concat (map snd (Object_entries groupedData))) = mset delivered"
      using inv(4) by (simp only: mset_concat_Object_entries)
    show "\<forall>(k, data) \<in> set (Object_entries groupedData).
          data = filter (\<lambda>r. fleeName_of r = k) delivered"
      using inv(3) by (simp only: set_Object_entries)
    show "Object_keys groupedData
        = sort_key decimal_value
            (filter is_array_index (first_seen (map fleeName_of delivered)))
          @ filter (\<lambda>k. \<not> is_array_index k) (first_seen (map fleeName_of delivered))"
      by (rule keys)
    show "Object_keys groupedData = first_seen (map fleeName_of delivered)"
      if "\<forall>r \<in> set delivered. \<not> is_array_index (fleeName_of r)"
      using that by (rule plain)
  qed
qed

theorem partition_groups_witness:
  "groupByFleeName
     [[(''FleeName'', ''B''), (''id'', ''1'')], [(''FleeName'', ''7''), (''id'', ''2'')],
      [(''FleeName'', '' B ''), (''id'', ''3'')]]
   = Inr [(''B'', [[(''FleeName'', ''B''), (''id'', ''1'')],
                  [(''FleeName'', '' B ''), (''id'', ''3'')]]),
          (''7'', [[(''FleeName'', ''7''), (''id'', ''2'')]])]
   \<and> Object_keys
         [(''B'', [[(''FleeName'', ''B''), (''id'', ''1'')],
                  [(''FleeName'', '' B ''), (''id'', ''3'')]]),
          (''7'', [[(''FleeName'', ''7''), (''id'', ''2'')]])]
       = [''7'', ''B'']
   \<and> distinct (Object_keys
         [(''B'', [[(''FleeName'', ''B''), (''id'', ''1'')],
                  [(''FleeName'', '' B ''), (''id'', ''3'')]]),
          (''7'', [[(''FleeName'', ''7''), (''id'', ''2'')]])])
   \<and> groupByFleeName [[(''FleeName'', ''B'')], [(''FleeName'', ''A'')]]
       = Inr [(''B'', [[(''FleeName'', ''B'')]]), (''A'', [[(''FleeName'', ''A'')]])]
   \<and> Object_keys [(''B'', [[(''FleeName'', ''B'')]]), (''A'', [[(''FleeName'', ''A'')]])]
       = [''B'', ''A'']"
proof -
  have run: "groupByFleeName
     [[(''FleeName'', ''B''), (''id'', ''1'')], [(''FleeName'', ''7''), (''id'', ''2'')],
      [(''FleeName'', '' B ''), (''id'', ''3'')]]
   = Inr [(''B'', [[(''FleeName'', ''B''), (''id'', ''1'')],
                  [(''FleeName'', '' B ''), (''id'', ''3'')]]),
          (''7'', [[(''FleeName'', ''7''), (''id'', ''2'')]])]"
    by (simp add: group_eval Let_def)
  have order: "sort_key decimal_value
            (filter is_array_index (first_seen (map fleeName_of
               [[(''FleeName'', ''B''), (''id'', ''1'')], [(''FleeName'', ''7''), (''id'', ''2'')],
                [(''FleeName'', '' B ''), (''id'', ''3'')]])))
          @ filter (\<lambda>k. \<not> is_array_index k) (first_seen (map fleeName_of
               [[(''FleeName'', ''B''), (''id'', ''1'')], [(''FleeName'', ''7''), (''id'', ''2'')],
                [(''FleeName'', '' B ''), (''id'', ''3'')]]))
        = [''7'', ''B'']"
    by (simp add: group_eval array_index_eval)
  note parts = partition_groups [OF run, unfolded order]
  from parts have keys: "Object_keys
         [(''B'', [[(''FleeName'', ''B''), (''id'', ''1'')],
                  [(''FleeName'', '' B ''), (''id'', ''3'')]]),
          (''7'', [[(''FleeName'', ''7''), (''id'', ''2'')]])]
       = [''7'', ''B'']"
    by blast
  from parts have dist: "distinct (Object_keys
         [(''B'', [[(''FleeName'', ''B''), (''id'', ''1'')],
                  [(''FleeName'', '' B ''), (''id'', ''3'')]]),
          (''7'', [[(''FleeName'', ''7''), (''id'', ''2'')]])])"
    by blast
  have run2: "groupByFleeName [[(''FleeName'', ''B'')], [(''FleeName'', ''A'')]]
       = Inr [(''B'', [[(''FleeName'', ''B'')]]), (''A'', [[(''FleeName'', ''A'')]])]"
    by (simp add: group_eval Let_def)
  have plain: "\<forall>r \<in> set [[(''FleeName'', ''B'')], [(''FleeName'', ''A'')]].
                 \<not> is_array_index (fleeName_of r)"
    by (simp add: group_eval array_index_eval)
  have seen: "first_seen (map fleeName_of [[(''FleeName'', ''B'')], [(''FleeName'', ''A'')]])
              = [''B'', ''A'']"
    by (simp add: group_eval)
  from partition_groups [OF run2] plain
  have "Object_keys [(''B'', [[(''FleeName'', ''B'')]]), (''A'', [[(''FleeName'', ''A'')]])]
        = first_seen (map fleeName_of [[(''FleeName'', ''B'')], [(''FleeName'', ''A'')]])"
    by blast
  then have keys2:
    "Object_keys [(''B'', [[(''FleeName'', ''B'')]]), (''A'', [[(''FleeName'', ''A'')]])]
     = [''B'', ''A'']"
    by (simp only: seen)
  show ?thesis
    by (intro conjI run keys dist run2 keys2)
qed

text \<open>
  Two filtered rows with the keys \<^verbatim>\<open>B\<close> and \<^verbatim>\<open>1\<close>, in this order: the group of \<^verbatim>\<open>1\<close>
  enumerates first.
\<close>

theorem numeric_key_order_counterexample:
  "groupByFleeName
     [[(''FleeName'', ''B''), (''FinalStatus'', ''DELIVERED'')],
      [(''FleeName'', ''1''), (''FinalStatus'', ''DELIVERED'')]]
   = Inr [(''B'', [[(''FleeName'', ''B''), (''FinalStatus'', ''DELIVERED'')]]),
          (''1'', [[(''FleeName'', ''1''), (''FinalStatus'', ''DELIVERED'')]])]
   \<and> Object_keys
         [(''B'', [[(''FleeName'', ''B''), (''FinalStatus'', ''DELIVERED'')]]),
          (''1'', [[(''FleeName'', ''1''), (''FinalStatus'', ''DELIVERED'')]])]
       = [''1'', ''B'']
   \<and> first_seen (map fleeName_of
         [[(''FleeName'', ''B''), (''FinalStatus'', ''DELIVERED'')],
          [(''FleeName'', ''1''), (''FinalStatus'', ''DELIVERED'')]])
       = [''B'', ''1'']"
  by (simp add: group_eval Let_def Object_keys_def Object_entries_def array_index_eval)

section \<open>Properties of the group key\<close>

lemma trim_undefined: "trim ''undefined'' = ''undefined''"
  by (simp add: string_eval)

lemma trim_white_space: "\<forall>c \<in> set v. isWhiteSpace c \<Longrightarrow> trim v = []"
proof -
  assume "\<forall>c \<in> set v. isWhiteSpace c"
  then have "dropWhile isWhiteSpace v = []"
    by (simp add: dropWhile_eq_Nil_conv)
  then show ?thesis
    unfolding trim_def trimStart_def trimEnd_def
    by (simp only: rev.simps dropWhile.simps)
qed

lemma trimEnd_idem: "trimEnd (trimEnd s) = trimEnd s"
  by (simp add: trimEnd_def)

lemma trimStart_trimEnd_trimStart: "trimStart (trimEnd (trimStart s)) = trimEnd (trimStart s)"
proof -
  define u where "u = dropWhile isWhiteSpace s"
  define t where "t = rev (dropWhile isWhiteSpace (rev u))"
  have split: "u = t @ rev (takeWhile isWhiteSpace (rev u))"
  proof -
    have "rev (takeWhile isWhiteSpace (rev u) @ dropWhile isWhiteSpace (rev u)) = rev (rev u)"
      by (simp only: takeWhile_dropWhile_id)
    then show ?thesis
      by (simp only: rev_append rev_rev_ident t_def)
  qed
  have "dropWhile isWhiteSpace t = t"
  proof (cases "t = []")
    case True
    then show ?thesis by simp
  next
    case False
    with split have "hd t = hd u" and "u \<noteq> []"
      by (metis hd_append2, metis append_is_Nil_conv)
    moreover from \<open>u \<noteq> []\<close> have "\<not> isWhiteSpace (hd u)"
      unfolding u_def by (rule hd_dropWhile)
    ultimately show ?thesis
      using False by (simp add: dropWhile_eq_self_iff)
  qed
  then show ?thesis
    by (simp add: trimStart_def trimEnd_def t_def u_def)
qed

lemma trim_idem: "trim (trim s) = trim s"
  unfolding trim_def
  by (simp only: trimStart_trimEnd_trimStart trimEnd_idem)

text \<open>
  Claim C2, as amended. The group key of a row is the trimmed text of its \<^verbatim>\<open>FleeName\<close>
  cell when that text is not empty, and the literal \<^verbatim>\<open>undefined\<close> when the cell is missing
  or holds the empty string; in every case the key is a trimmed string. The fallback looks
  at the text before it is trimmed: a text that is not empty and consists of white space
  only is keyed by the empty string.
\<close>

theorem group_key_trimmed_or_undefined:
  "(\<forall>v. get_prop r ''FleeName'' = Some v \<and> v \<noteq> [] \<longrightarrow> fleeName_of r = trim v)
   \<and> (get_prop r ''FleeName'' = None \<or> get_prop r ''FleeName'' = Some []
        \<longrightarrow> fleeName_of r = ''undefined'')
   \<and> trim (fleeName_of r) = fleeName_of r
   \<and> (\<forall>v. get_prop r ''FleeName'' = Some v \<and> v \<noteq> [] \<and> (\<forall>c \<in> set v. isWhiteSpace c)
          \<longrightarrow> fleeName_of r = [])"
proof (intro conjI allI impI)
  fix v
  assume "get_prop r ''FleeName'' = Some v \<and> v \<noteq> []"
  then show "fleeName_of r = trim v"
    by (simp add: fleeName_of_def or_default_def)
next
  assume "get_prop r ''FleeName'' = None \<or> get_prop r ''FleeName'' = Some []"
  then show "fleeName_of r = ''undefined''"
    by (auto simp: fleeName_of_def or_default_def trim_undefined)
next
  show "trim (fleeName_of r) = fleeName_of r"
    unfolding fleeName_of_def by (rule trim_idem)
next
  fix v
  assume "get_prop r ''FleeName'' = Some v \<and> v \<noteq> [] \<and> (\<forall>c \<in> set v. isWhiteSpace c)"
  then show "fleeName_of r = []"
    by (simp add: fleeName_of_def or_default_def trim_white_space)
qed

theorem group_key_trimmed_or_undefined_witness:
  "fleeName_of [(''FleeName'', '' CourierX ''), (''FinalStatus'', ''Delivered'')] = ''CourierX''
   \<and> fleeName_of [(''FleeName'', []), (''FinalStatus'', ''Delivered'')] = ''undefined''
   \<and> fleeName_of [(''FinalStatus'', ''Delivered'')] = ''undefined''
   \<and> fleeName_of [(''FleeName'', [CHR 0xA0, CHR 0x09]), (''FinalStatus'', ''Delivered'')] = []"
proof -
  have a: "get_prop [(''FleeName'', '' CourierX ''), (''FinalStatus'', ''Delivered'')] ''FleeName''
             = Some '' CourierX '' \<and> '' CourierX '' \<noteq> []"
    by (simp add: get_prop_def)
  have b: "get_prop [(''FleeName'', []), (''FinalStatus'', ''Delivered'')] ''FleeName'' = Some []"
    by (simp add: get_prop_def)
  have c: "get_prop [(''FinalStatus'', ''Delivered'')] ''FleeName'' = None"
    by (simp add: get_prop_def)
  have d: "get_prop [(''FleeName'', [CHR 0xA0, CHR 0x09]), (''FinalStatus'', ''Delivered'')]
             ''FleeName'' = Some [CHR 0xA0, CHR 0x09]
           \<and> [CHR 0xA0, CHR 0x09] \<noteq> []
           \<and> (\<forall>c \<in> set [CHR 0xA0, CHR 0x09]. isWhiteSpace c)"
    by (simp add: get_prop_def isWhiteSpace_def isWhiteSpace_unit_def)
  have t: "trim '' CourierX '' = ''CourierX''"
    by (simp add: string_eval)
  from group_key_trimmed_or_undefined
         [of "[(''FleeName'', '' CourierX ''), (''FinalStatus'', ''Delivered'')]"] a
  have 1: "fleeName_of [(''FleeName'', '' CourierX ''), (''FinalStatus'', ''Delivered'')]
           = trim '' CourierX ''"
    by blast
  from group_key_trimmed_or_undefined
         [of "[(''FleeName'', []), (''FinalStatus'', ''Delivered'')]"] b
  have 2: "fleeName_of [(''FleeName'', []), (''FinalStatus'', ''Delivered'')] = ''undefined''"
    by blast
  from group_key_trimmed_or_undefined [of "[(''FinalStatus'', ''Delivered'')]"] c
  have 3: "fleeName_of [(''FinalStatus'', ''Delivered'')] = ''undefined''"
    by blast
  from group_key_trimmed_or_undefined
         [of "[(''FleeName'', [CHR 0xA0, CHR 0x09]), (''FinalStatus'', ''Delivered'')]"] d
  have 4: "fleeName_of [(''FleeName'', [CHR 0xA0, CHR 0x09]), (''FinalStatus'', ''Delivered'')]
           = []"
    by blast
  from 1 2 3 4 t show ?thesis by (simp only: simp_thms)
qed

text \<open>
  A delivered row whose \<^verbatim>\<open>FleeName\<close> is two spaces, and one whose \<^verbatim>\<open>FleeName\<close> is a
  no-break space: the text is empty after trimming, and the key is the empty string, not
  \<^verbatim>\<open>undefined\<close>.
\<close>

theorem whitespace_only_key_counterexample:
  "trim ''  '' = []
   \<and> fleeName_of [(''FleeName'', ''  ''), (''FinalStatus'', ''Delivered'')] = []
   \<and> fleeName_of [(''FleeName'', ''  ''), (''FinalStatus'', ''Delivered'')] \<noteq> ''undefined''
   \<and> isDelivered [(''FleeName'', ''  ''), (''FinalStatus'', ''Delivered'')]
   \<and> trim [CHR 0xA0] = []
   \<and> fleeName_of [(''FleeName'', [CHR 0xA0]), (''FinalStatus'', ''Delivered'')] = []"
  by (simp add: fleeName_of_def or_default_def get_prop_def isDelivered_def string_eval)

section \<open>Properties of the export loop\<close>

lemma group_nonempty:
  assumes "groupByFleeName delivered = Inr groupedData"
    and "(fleeName, data) \<in> set (Object_entries groupedData)"
  shows "data \<noteq> []"
proof -
  note inv = groupByFleeName_invariant [OF assms(1)]
  from assms(2) have mem: "(fleeName, data) \<in> set groupedData"
    by (simp only: set_Object_entries)
  then have "fleeName \<in> set (map fst groupedData)"
    by force
  then have "fleeName \<in> set (map fleeName_of delivered)"
    by (simp only: inv(2) set_first_seen)
  then obtain r where "r \<in> set delivered" and "fleeName_of r = fleeName"
    by auto
  then have "filter (\<lambda>r. fleeName_of r = fleeName) delivered \<noteq> []"
    by (auto simp: filter_empty_conv)
  moreover from inv(3) mem have "data = filter (\<lambda>r. fleeName_of r = fleeName) delivered"
    by auto
  ultimately show ?thesis by simp
qed

lemma colWidths_nonempty:
  "data \<noteq> [] \<Longrightarrow>
   colWidths (map project data) = Inr (map (\<lambda>_. 15) (Object_keys (project (hd data))))"
  by (cases data) (simp_all add: colWidths_def)

text \<open>One round of the loop on a group that has rows.\<close>

lemma export_groups_round:
  assumes "data \<noteq> []"
  shows "export_groups lib sheetName fileCount ((fleeName, data) # rest) (z, processedFiles, c)
    = (case json_to_sheet_throws lib (map project data) of
         Some e \<Rightarrow> Inl (e, c)
       | None \<Rightarrow>
          (case book_append_sheet_throws lib (group_sheet sheetName data) of
             Some e \<Rightarrow> Inl (e, c)
           | None \<Rightarrow>
              (case write_throws lib (group_sheet sheetName data) of
                 Some e \<Rightarrow> Inl (e, c)
               | None \<Rightarrow>
                   export_groups lib sheetName fileCount rest
                     (zip_file z (cleanFleeName fleeName @ ''.xlsx'') (group_sheet sheetName data),
                      Suc processedFiles,
                      setProgress (Percent (progressPercent (Suc processedFiles) fileCount)) c))))"
  by (simp add: colWidths_nonempty [OF assms] Let_def group_sheet_def split: option.splits)

text \<open>The archive after the loop, and the condition under which no call of a round throws.\<close>

lemma export_groups_returns:
  assumes "\<forall>(fleeName, data) \<in> set entries. data \<noteq> []"
    and "export_groups lib sheetName fileCount entries (z, processedFiles, c) = Inr (z', c')"
  shows "z' = foldl (\<lambda>z (fleeName, data).
                   zip_file z (cleanFleeName fleeName @ ''.xlsx'') (group_sheet sheetName data))
                 z entries
         \<and> c' = c\<lparr>progress_log := progress_log c
                   @ map (\<lambda>i. Percent (progressPercent i fileCount))
                       [Suc processedFiles ..< Suc processedFiles + length entries]\<rparr>"
  using assms
proof (induction entries arbitrary: z processedFiles c)
  case Nil
  then show ?case by simp
next
  case (Cons e entries)
  obtain fleeName data where e: "e = (fleeName, data)" by (cases e)
  with Cons.prems(1) have ne: "data \<noteq> []"
    and rest: "\<forall>(fleeName, data) \<in> set entries. data \<noteq> []"
    by auto
  have upt: "[Suc processedFiles ..< Suc processedFiles + length (e # entries)]
             = Suc processedFiles
               # [Suc (Suc processedFiles) ..< Suc (Suc processedFiles) + length entries]"
    by (simp add: upt_rec)
  from Cons.prems(2) have next_round:
    "export_groups lib sheetName fileCount entries
       (zip_file z (cleanFleeName fleeName @ ''.xlsx'') (group_sheet sheetName data),
        Suc processedFiles,
        setProgress (Percent (progressPercent (Suc processedFiles) fileCount)) c) = Inr (z', c')"
    unfolding e export_groups_round [OF ne] by (simp split: option.splits)
  from Cons.IH [OF rest next_round] show ?case
    unfolding e upt [unfolded e] by (simp add: setProgress_def)
qed

lemma export_groups_thrown:
  assumes "\<forall>(fleeName, data) \<in> set entries. data \<noteq> []"
    and "export_groups lib sheetName fileCount entries (z, processedFiles, c) = Inl (e, c')"
  shows "(\<exists>(fleeName, data) \<in> set entries.
            json_to_sheet_throws lib (map project data) = Some e
            \<or> book_append_sheet_throws lib (group_sheet sheetName data) = Some e
            \<or> write_throws lib (group_sheet sheetName data) = Some e)
         \<and> (\<exists>ps. c' = c\<lparr>progress_log := progress_log c @ ps\<rparr>)"
  using assms
proof (induction entries arbitrary: z processedFiles c)
  case Nil
  then show ?case by simp
next
  case (Cons en entries)
  obtain fleeName data where en: "en = (fleeName, data)" by (cases en)
  with Cons.prems(1) have ne: "data \<noteq> []"
    and rest: "\<forall>(fleeName, data) \<in> set entries. data \<noteq> []"
    by auto
  let ?z1 = "zip_file z (cleanFleeName fleeName @ ''.xlsx'') (group_sheet sheetName data)"
  let ?c1 = "setProgress (Percent (progressPercent (Suc processedFiles) fileCount)) c"
  show ?case
  proof (cases "json_to_sheet_throws lib (map project data) = None
                \<and> book_append_sheet_throws lib (group_sheet sheetName data) = None
                \<and> write_throws lib (group_sheet sheetName data) = None")
    case True
    with Cons.prems(2) have
      "export_groups lib sheetName fileCount entries (?z1, Suc processedFiles, ?c1) = Inl (e, c')"
      unfolding en export_groups_round [OF ne] by simp
    from Cons.IH [OF rest this] obtain ps where
      thrown: "\<exists>(fleeName, data) \<in> set entries.
            json_to_sheet_throws lib (map project data) = Some e
            \<or> book_append_sheet_throws lib (group_sheet sheetName data) = Some e
            \<or> write_throws lib (group_sheet sheetName data) = Some e"
      and c': "c' = ?c1\<lparr>progress_log := progress_log ?c1 @ ps\<rparr>"
      by blast
    from c' have "c' = c\<lparr>progress_log := progress_log c
        @ (Percent (progressPercent (Suc processedFiles) fileCount) # ps)\<rparr>"
      by (simp add: setProgress_def)
    with thrown show ?thesis
      unfolding en by auto
  next
    case False
    with Cons.prems(2) have "c' = c"
      and "json_to_sheet_throws lib (map project data) = Some e
            \<or> book_append_sheet_throws lib (group_sheet sheetName data) = Some e
            \<or> write_throws lib (group_sheet sheetName data) = Some e"
      unfolding en export_groups_round [OF ne] by (auto split: option.splits)
    then show ?thesis
      unfolding en by (auto intro: exI [of _ "[]"])
  qed
qed

lemma export_groups_not_thrown:
  assumes "\<forall>(fleeName, data) \<in> set entries. data \<noteq> []"
    and "export_groups lib sheetName fileCount entries (z, processedFiles, c) = Inr (z', c')"
  shows "\<forall>(fleeName, data) \<in> set entries.
            json_to_sheet_throws lib (map project data) = None
            \<and> book_append_sheet_throws lib (group_sheet sheetName data) = None
            \<and> write_throws lib (group_sheet sheetName data) = None"
  using assms
proof (induction entries arbitrary: z processedFiles c)
  case Nil
  then show ?case by simp
next
  case (Cons en entries)
  obtain fleeName data where en: "en = (fleeName, data)" by (cases en)
  with Cons.prems(1) have ne: "data \<noteq> []"
    and rest: "\<forall>(fleeName, data) \<in> set entries. data \<noteq> []"
    by auto
  from Cons.prems(2) have quiet_round:
    "json_to_sheet_throws lib (map project data) = None
     \<and> book_append_sheet_throws lib (group_sheet sheetName data) = None
     \<and> write_throws lib (group_sheet sheetName data) = None"
    and next_round: "export_groups lib sheetName fileCount entries
       (zip_file z (cleanFleeName fleeName @ ''.xlsx'') (group_sheet sheetName data),
        Suc processedFiles,
        setProgress (Percent (progressPercent (Suc processedFiles) fileCount)) c) = Inr (z', c')"
    unfolding en export_groups_round [OF ne] by (auto split: option.splits)
  from Cons.IH [OF rest next_round] quiet_round show ?case
    unfolding en by simp
qed

lemma export_groups_completes:
  assumes "\<forall>(fleeName, data) \<in> set entries. data \<noteq> []"
    and "\<forall>(fleeName, data) \<in> set entries.
            json_to_sheet_throws lib (map project data) = None
            \<and> book_append_sheet_throws lib (group_sheet sheetName data) = None
            \<and> write_throws lib (group_sheet sheetName data) = None"
  shows "\<exists>z' c'. export_groups lib sheetName fileCount entries (z, processedFiles, c)
                  = Inr (z', c')"
proof (cases "export_groups lib sheetName fileCount entries (z, processedFiles, c)")
  case (Inl a)
  obtain e c' where "a = (e, c')" by (cases a)
  with Inl export_groups_thrown [OF assms(1), of lib sheetName fileCount z processedFiles c e c']
    assms(2)
  show ?thesis by fastforce
next
  case (Inr b)
  then show ?thesis by (cases b) simp
qed


text \<open>
  Claim C10. Every group that the grouping produces holds at least one row, so the rows
  projected for a group are a non-empty sequence and the column widths are derived from
  its element 0 without an exception. An exception that ends the export loop is therefore
  one that a call of the library threw on a group, and the loop runs to its end when no
  such call throws.
\<close>

theorem groups_nonempty_writer_safe:
  assumes "groupByFleeName delivered = Inr groupedData"
  shows "(\<forall>(fleeName, data) \<in> set (Object_entries groupedData).
            data \<noteq> [] \<and> map project data \<noteq> []
            \<and> colWidths (map project data)
                = Inr (map (\<lambda>_. 15) (Object_keys (project (hd data)))))
         \<and> (\<forall>e c'. export_groups lib sheetName fileCount (Object_entries groupedData)
                     (z, processedFiles, c) = Inl (e, c')
               \<longrightarrow> (\<exists>(fleeName, data) \<in> set (Object_entries groupedData).
                      json_to_sheet_throws lib (map project data) = Some e
                      \<or> book_append_sheet_throws lib (group_sheet sheetName data) = Some e
                      \<or> write_throws lib (group_sheet sheetName data) = Some e))
         \<and> ((\<forall>(fleeName, data) \<in> set (Object_entries groupedData).
                 json_to_sheet_throws lib (map project data) = None
                 \<and> book_append_sheet_throws lib (group_sheet sheetName data) = None
                 \<and> write_throws lib (group_sheet sheetName data) = None)
              \<longrightarrow> (\<exists>z' c'. export_groups lib sheetName fileCount (Object_entries groupedData)
                            (z, processedFiles, c) = Inr (z', c')))"
proof (intro conjI allI impI)
  have ne: "\<forall>(fleeName, data) \<in> set (Object_entries groupedData). data \<noteq> []"
    using group_nonempty [OF assms] by auto
  then show "\<forall>(fleeName, data) \<in> set (Object_entries groupedData).
            data \<noteq> [] \<and> map project data \<noteq> []
            \<and> colWidths (map project data)
                = Inr (map (\<lambda>_. 15) (Object_keys (project (hd data))))"
    by (auto simp: colWidths_nonempty)
  show "\<exists>(fleeName, data) \<in> set (Object_entries groupedData).
          json_to_sheet_throws lib (map project data) = Some e
          \<or> book_append_sheet_throws lib (group_sheet sheetName data) = Some e
          \<or> write_throws lib (group_sheet sheetName data) = Some e"
    if "export_groups lib sheetName fileCount (Object_entries groupedData)
          (z, processedFiles, c) = Inl (e, c')" for e c'
    using export_groups_thrown [OF ne that] by blast
  show "\<exists>z' c'. export_groups lib sheetName fileCount (Object_entries groupedData)
                  (z, processedFiles, c) = Inr (z', c')"
    if "\<forall>(fleeName, data) \<in> set (Object_entries groupedData).
          json_to_sheet_throws lib (map project data) = None
          \<and> book_append_sheet_throws lib (group_sheet sheetName data) = None
          \<and> write_throws lib (group_sheet sheetName data) = None"
    using ne that by (rule export_groups_completes)
qed

theorem groups_nonempty_writer_safe_witness:
  "groupByFleeName
     [[(''FleeName'', ''B''), (''sync time'', ''t'')], [(''FleeName'', ''7''), (''sync time'', ''u'')]]
   = Inr [(''B'', [[(''FleeName'', ''B''), (''sync time'', ''t'')]]),
          (''7'', [[(''FleeName'', ''7''), (''sync time'', ''u'')]])]
   \<and> colWidths (map project [[(''FleeName'', ''B''), (''sync time'', ''t'')]]) = Inr [15]
   \<and> (\<exists>z' c'. export_groups quiet ''Sheet1'' 2
         (Object_entries
            [(''B'', [[(''FleeName'', ''B''), (''sync time'', ''t'')]]),
             (''7'', [[(''FleeName'', ''7''), (''sync time'', ''u'')]])])
         ([], 0, file_chosen) = Inr (z', c'))
   \<and> export_groups refusing_long_names ''A sheet name of 32 characters...'' 2
         (Object_entries
            [(''B'', [[(''FleeName'', ''B''), (''sync time'', ''t'')]]),
             (''7'', [[(''FleeName'', ''7''), (''sync time'', ''u'')]])])
         ([], 0, file_chosen)
       = Inl (Error ''Sheet names cannot exceed 31 chars'', file_chosen)
   \<and> (\<exists>(fleeName, data) \<in> set (Object_entries
            [(''B'', [[(''FleeName'', ''B''), (''sync time'', ''t'')]]),
             (''7'', [[(''FleeName'', ''7''), (''sync time'', ''u'')]])]).
         json_to_sheet_throws refusing_long_names (map project data)
           = Some (Error ''Sheet names cannot exceed 31 chars'')
         \<or> book_append_sheet_throws refusing_long_names
              (group_sheet ''A sheet name of 32 characters...'' data)
           = Some (Error ''Sheet names cannot exceed 31 chars'')
         \<or> write_throws refusing_long_names
              (group_sheet ''A sheet name of 32 characters...'' data)
           = Some (Error ''Sheet names cannot exceed 31 chars''))"
proof -
  let ?g = "[(''B'', [[(''FleeName'', ''B''), (''sync time'', ''t'')]]),
             (''7'', [[(''FleeName'', ''7''), (''sync time'', ''u'')]])]"
  have run: "groupByFleeName
     [[(''FleeName'', ''B''), (''sync time'', ''t'')], [(''FleeName'', ''7''), (''sync time'', ''u'')]]
   = Inr ?g"
    by (simp add: group_eval Let_def)
  note safe = groups_nonempty_writer_safe [OF run]
  have mem: "(''B'', [[(''FleeName'', ''B''), (''sync time'', ''t'')]])
       \<in> set (Object_entries ?g)"
    by (simp add: Object_entries_def array_index_eval)
  have keys: "Object_keys (project (hd [[(''FleeName'', ''B''), (''sync time'', ''t'')]]))
              = [''FleeName'']"
    by (simp add: project_eq Object_keys_def Object_entries_def array_index_eval)
  from safe mem
  have "colWidths (map project [[(''FleeName'', ''B''), (''sync time'', ''t'')]])
        = Inr (map (\<lambda>_. 15)
            (Object_keys (project (hd [[(''FleeName'', ''B''), (''sync time'', ''t'')]]))))"
    by blast
  then have widths: "colWidths (map project [[(''FleeName'', ''B''), (''sync time'', ''t'')]])
        = Inr [15]"
    by (simp only: keys list.map)
  have silent: "\<forall>(fleeName, data) \<in> set (Object_entries ?g).
                 json_to_sheet_throws quiet (map project data) = None
                 \<and> book_append_sheet_throws quiet (group_sheet ''Sheet1'' data) = None
                 \<and> write_throws quiet (group_sheet ''Sheet1'' data) = None"
    by (simp add: quiet_def)
  from safe [of quiet "''Sheet1''" 2 "[]" 0 file_chosen] silent
  have loop: "\<exists>z' c'. export_groups quiet ''Sheet1'' 2 (Object_entries ?g)
         ([], 0, file_chosen) = Inr (z', c')"
    by blast
  have refused: "export_groups refusing_long_names ''A sheet name of 32 characters...'' 2
         (Object_entries ?g) ([], 0, file_chosen)
       = Inl (Error ''Sheet names cannot exceed 31 chars'', file_chosen)"
    by (simp add: Object_entries_def array_index_eval project_eq colWidths_def Object_keys_def
        refusing_long_names_def quiet_def Let_def)
  from safe [of refusing_long_names "''A sheet name of 32 characters...''" 2 "[]" 0 file_chosen]
    refused
  have thrown: "\<exists>(fleeName, data) \<in> set (Object_entries ?g).
         json_to_sheet_throws refusing_long_names (map project data)
           = Some (Error ''Sheet names cannot exceed 31 chars'')
         \<or> book_append_sheet_throws refusing_long_names
              (group_sheet ''A sheet name of 32 characters...'' data)
           = Some (Error ''Sheet names cannot exceed 31 chars'')
         \<or> write_throws refusing_long_names
              (group_sheet ''A sheet name of 32 characters...'' data)
           = Some (Error ''Sheet names cannot exceed 31 chars'')"
    by blast
  show ?thesis
    by (intro conjI run widths loop refused thrown)
qed

section \<open>Outcome of the pipeline\<close>

declare show_nat.simps [simp del]

lemmas setters = setProgress_def setStatus_def setStatusType_def setStats_def

lemma report_error_fields:
  "status (report_error m c) = m"
  "statusType (report_error m c) = error"
  "stats (report_error m c) = stats c"
  "download (report_error m c) = download c"
  "progress_log (report_error m c) = progress_log c @ [Cleared]"
  by (simp_all add: report_error_def setters)

lemma catch_block_fields:
  "status (catch_block e c) = ''Processing failed: '' @ message e"
  "statusType (catch_block e c) = error"
  "stats (catch_block e c) = stats c"
  "download (catch_block e c) = download c"
  "progress_log (catch_block e c) = progress_log c @ [Cleared]"
  by (simp_all add: catch_block_def report_error_fields)

lemma processExcel_Workbook:
  "processExcel lib hubName (Some (Workbook sheetName jsonData)) c0 =
     (let c1 = setProgress (Percent 25) (setProgress (Percent 10)
                 (setStatusType processing (setStatus ''Reading file...'' c0)))
      in if jsonData = [] then report_error msg_empty c1
         else if \<not> hasOwnProperty (hd jsonData) ''FleeName''
         then report_error msg_missing_column (setProgress (Percent 40) c1)
         else if deliveredData jsonData = []
         then report_error msg_no_matches (setProgress (Percent 40) c1)
         else group_and_export lib hubName sheetName (deliveredData jsonData)
                (setProgress (Percent 40) c1))"
  by (cases jsonData) (simp_all add: processExcel_def Let_def)

text \<open>The four ways in which the part after the last early return ends.\<close>

lemma group_and_export_cases:
  obtains (grouping) e where
      "groupByFleeName delivered = Inl e"
      "group_and_export lib hubName sheetName delivered c0
       = catch_block e (setProgress (Percent 50) (setStatus ''Grouping data...'' c0))"
  | (exporting) groupedData e ps where
      "groupByFleeName delivered = Inr groupedData"
      "(\<exists>(fleeName, data) \<in> set (Object_entries groupedData).
            json_to_sheet_throws lib (map project data) = Some e
            \<or> book_append_sheet_throws lib (group_sheet sheetName data) = Some e
            \<or> write_throws lib (group_sheet sheetName data) = Some e)"
      "group_and_export lib hubName sheetName delivered c0
       = catch_block e
           (c0\<lparr>status := ''Generating '' @ show_nat (length (Object_keys groupedData))
                          @ '' files...'',
               progress_log := progress_log c0 @ [Percent 50, Percent 60] @ ps\<rparr>)"
  | (archiving) groupedData e where
      "groupByFleeName delivered = Inr groupedData"
      "generateAsync_throws lib
         (foldl (\<lambda>z (fleeName, data).
                   zip_file z (cleanFleeName fleeName @ ''.xlsx'') (group_sheet sheetName data))
            [] (Object_entries groupedData)) = Some e"
      "group_and_export lib hubName sheetName delivered c0
       = catch_block e
           (c0\<lparr>status := ''Packaging files...'',
               progress_log := progress_log c0
                 @ map Percent
                     ([50, 60]
                      @ map (\<lambda>i. progressPercent i (length (Object_keys groupedData)))
                          [1 ..< Suc (length (Object_keys groupedData))]
                      @ [95])\<rparr>)"
  | (finished) groupedData where
      "groupByFleeName delivered = Inr groupedData"
      "\<forall>(fleeName, data) \<in> set (Object_entries groupedData).
          json_to_sheet_throws lib (map project data) = None
          \<and> book_append_sheet_throws lib (group_sheet sheetName data) = None
          \<and> write_throws lib (group_sheet sheetName data) = None"
      "generateAsync_throws lib
         (foldl (\<lambda>z (fleeName, data).
                   zip_file z (cleanFleeName fleeName @ ''.xlsx'') (group_sheet sheetName data))
            [] (Object_entries groupedData)) = None"
      "group_and_export lib hubName sheetName delivered c0
         = c0\<lparr>status := ''Success! Generated '' @ show_nat (length (Object_keys groupedData))
                          @ '' Excel files (DELIVERED only) and packaged as ZIP'',
               statusType := success,
               stats := Some \<lparr>totalRows = length delivered,
                              uniqueFiles = length (Object_keys groupedData),
                              fileNames = take 10 (Object_keys groupedData)\<rparr>,
               progress_log := progress_log c0
                 @ map Percent
                     ([50, 60]
                      @ map (\<lambda>i. progressPercent i (length (Object_keys groupedData)))
                          [1 ..< Suc (length (Object_keys groupedData))]
                      @ [95, 100])
                 @ [Cleared],
               download := Some (hubName @ ''.zip'',
                 foldl (\<lambda>z (fleeName, data).
                          zip_file z (cleanFleeName fleeName @ ''.xlsx'')
                            (group_sheet sheetName data))
                       [] (Object_entries groupedData))\<rparr>"
proof (cases "groupByFleeName delivered")
  case (Inl e)
  then have "group_and_export lib hubName sheetName delivered c0
       = catch_block e (setProgress (Percent 50) (setStatus ''Grouping data...'' c0))"
    by (simp add: group_and_export_def Let_def)
  with Inl show ?thesis by (rule grouping)
next
  case (Inr groupedData)
  let ?n = "length (Object_keys groupedData)"
  let ?c60 = "setProgress (Percent 60)
                (setStatus (''Generating '' @ show_nat ?n @ '' files...'')
                   (setProgress (Percent 50) (setStatus ''Grouping data...'' c0)))"
  have ne: "\<forall>(fleeName, data) \<in> set (Object_entries groupedData). data \<noteq> []"
    using group_nonempty [OF Inr] by auto
  have len: "length (Object_entries groupedData) = ?n"
    by (simp add: Object_keys_def)
  show ?thesis
  proof (cases "export_groups lib sheetName ?n (Object_entries groupedData) ([], 0, ?c60)")
    case (Inl a)
    obtain e c' where a: "a = (e, c')" by (cases a)
    from export_groups_thrown [OF ne Inl [unfolded a]] obtain ps where
      thrown: "\<exists>(fleeName, data) \<in> set (Object_entries groupedData).
            json_to_sheet_throws lib (map project data) = Some e
            \<or> book_append_sheet_throws lib (group_sheet sheetName data) = Some e
            \<or> write_throws lib (group_sheet sheetName data) = Some e"
      and c': "c' = ?c60\<lparr>progress_log := progress_log ?c60 @ ps\<rparr>"
      by blast
    have "group_and_export lib hubName sheetName delivered c0 = catch_block e c'"
      using Inr Inl a by (simp add: group_and_export_def Let_def)
    also have "c' = c0\<lparr>status := ''Generating '' @ show_nat ?n @ '' files...'',
               progress_log := progress_log c0 @ [Percent 50, Percent 60] @ ps\<rparr>"
      unfolding c' by (simp add: setters)
    finally show ?thesis
      using Inr thrown by (intro exporting)
  next
    case right: (Inr b)
    obtain z c' where b: "b = (z, c')" by (cases b)
    note returned = export_groups_returns [OF ne right [unfolded b], unfolded len]
    have z: "z = foldl (\<lambda>z (fleeName, data).
                   zip_file z (cleanFleeName fleeName @ ''.xlsx'') (group_sheet sheetName data))
                 [] (Object_entries groupedData)"
      by (rule returned [THEN conjunct1])
    have c': "c' = ?c60\<lparr>progress_log := progress_log ?c60
                   @ map (\<lambda>i. Percent (progressPercent i ?n)) [Suc 0 ..< Suc 0 + ?n]\<rparr>"
      by (rule returned [THEN conjunct2])
    note ex = right [unfolded b c']
    show ?thesis
    proof (cases "generateAsync_throws lib z")
      case None
      have "group_and_export lib hubName sheetName delivered c0
         = c0\<lparr>status := ''Success! Generated '' @ show_nat ?n
                          @ '' Excel files (DELIVERED only) and packaged as ZIP'',
               statusType := success,
               stats := Some \<lparr>totalRows = length delivered, uniqueFiles = ?n,
                              fileNames = take 10 (Object_keys groupedData)\<rparr>,
               progress_log := progress_log c0
                 @ map Percent
                     ([50, 60] @ map (\<lambda>i. progressPercent i ?n) [1 ..< Suc ?n] @ [95, 100])
                 @ [Cleared],
               download := Some (hubName @ ''.zip'', z)\<rparr>"
        unfolding group_and_export_def Let_def Inr sum.case ex prod.case None option.case
        by (simp add: setters comp_def)
      with Inr None export_groups_not_thrown [OF ne right [unfolded b]] show ?thesis
        unfolding z by (intro finished)
    next
      case (Some e)
      have "group_and_export lib hubName sheetName delivered c0
       = catch_block e
           (c0\<lparr>status := ''Packaging files...'',
               progress_log := progress_log c0
                 @ map Percent
                     ([50, 60] @ map (\<lambda>i. progressPercent i ?n) [1 ..< Suc ?n] @ [95])\<rparr>)"
        unfolding group_and_export_def Let_def Inr sum.case ex prod.case Some option.case
        by (simp add: setters comp_def)
      with Inr Some show ?thesis
        unfolding z by (intro archiving)
    qed
  qed
qed

lemma processExcel_success_state:
  assumes "statusType (processExcel lib hubName f file_chosen) = success"
  obtains sheetName jsonData groupedData where
    "f = Some (Workbook sheetName jsonData)"
    and "groupByFleeName (deliveredData jsonData) = Inr groupedData"
    and "deliveredData jsonData \<noteq> []"
    and "processExcel lib hubName f file_chosen
         = \<lparr>status = ''Success! Generated '' @ show_nat (length (Object_keys groupedData))
                      @ '' Excel files (DELIVERED only) and packaged as ZIP'',
            statusType = success,
            stats = Some \<lparr>totalRows = length (deliveredData jsonData),
                           uniqueFiles = length (Object_keys groupedData),
                           fileNames = take 10 (Object_keys groupedData)\<rparr>,
            progress_log =
              map Percent
                ([10, 25, 40, 50, 60]
                 @ map (\<lambda>i. progressPercent i (length (Object_keys groupedData)))
                     [1 ..< Suc (length (Object_keys groupedData))]
                 @ [95, 100])
              @ [Cleared],
            download = Some (hubName @ ''.zip'',
              foldl (\<lambda>z (fleeName, data).
                       zip_file z (cleanFleeName fleeName @ ''.xlsx'')
                         (group_sheet sheetName data))
                    [] (Object_entries groupedData))\<rparr>"
proof (cases f)
  case None
  with assms show ?thesis by (simp add: processExcel_def file_chosen_def)
next
  case (Some content)
  show ?thesis
  proof (cases content)
    case (Unreadable e)
    with Some assms show ?thesis by (simp add: processExcel_def catch_block_fields)
  next
    case (Workbook sheetName jsonData)
    let ?c40 = "setProgress (Percent 40) (setProgress (Percent 25) (setProgress (Percent 10)
                 (setStatusType processing (setStatus ''Reading file...'' file_chosen))))"
    from assms Some Workbook have pre: "jsonData \<noteq> []"
      "hasOwnProperty (hd jsonData) ''FleeName''" "deliveredData jsonData \<noteq> []"
      and run: "processExcel lib hubName f file_chosen
                = group_and_export lib hubName sheetName (deliveredData jsonData) ?c40"
      by (auto simp: processExcel_Workbook Let_def report_error_fields split: if_splits)
    from assms have ok: "statusType (group_and_export lib hubName sheetName
                            (deliveredData jsonData) ?c40) = success"
      by (simp only: run)
    show ?thesis
    proof (cases rule: group_and_export_cases
        [of "deliveredData jsonData" lib hubName sheetName ?c40])
      case (grouping e)
      with ok show ?thesis by (simp add: catch_block_fields)
    next
      case (exporting groupedData e ps)
      with ok show ?thesis by (simp add: catch_block_fields)
    next
      case (archiving groupedData e)
      with ok show ?thesis by (simp add: catch_block_fields)
    next
      case (finished groupedData)
      have "processExcel lib hubName f file_chosen
         = \<lparr>status = ''Success! Generated '' @ show_nat (length (Object_keys groupedData))
                      @ '' Excel files (DELIVERED only) and packaged as ZIP'',
            statusType = success,
            stats = Some \<lparr>totalRows = length (deliveredData jsonData),
                           uniqueFiles = length (Object_keys groupedData),
                           fileNames = take 10 (Object_keys groupedData)\<rparr>,
            progress_log =
              map Percent
                ([10, 25, 40, 50, 60]
                 @ map (\<lambda>i. progressPercent i (length (Object_keys groupedData)))
                     [1 ..< Suc (length (Object_keys groupedData))]
                 @ [95, 100])
              @ [Cleared],
            download = Some (hubName @ ''.zip'',
              foldl (\<lambda>z (fleeName, data).
                       zip_file z (cleanFleeName fleeName @ ''.xlsx'')
                         (group_sheet sheetName data))
                    [] (Object_entries groupedData))\<rparr>"
        unfolding run finished(4) by (simp add: setters file_chosen_def)
      moreover from Some Workbook have "f = Some (Workbook sheetName jsonData)"
        by simp
      ultimately show ?thesis
        using finished(1) pre(3) by (intro that)
    qed
  qed
qed

lemma progressPercent_mono:
  "i \<le> j \<Longrightarrow> progressPercent i n \<le> progressPercent j n"
  unfolding progressPercent_def by (rule div_le_mono) simp

lemma progressPercent_bounds:
  assumes "0 < n" and "i \<le> n"
  shows "60 \<le> progressPercent i n" and "progressPercent i n \<le> 90"
proof -
  have "60 * (2 * n) \<le> 2 * (60 * n + 30 * i) + n" by simp
  then have "60 \<le> (2 * (60 * n + 30 * i) + n) div (2 * n)"
    using assms(1) by (simp add: less_eq_div_iff_mult_less_eq)
  then show "60 \<le> progressPercent i n" by (simp add: progressPercent_def)
  have "2 * (60 * n + 30 * i) + n < 91 * (2 * n)"
    using assms by simp
  then have "(2 * (60 * n + 30 * i) + n) div (2 * n) < 91"
    using assms(1) by (simp add: div_less_iff_less_mult)
  then show "progressPercent i n \<le> 90" by (simp add: progressPercent_def)
qed

lemma progressPercent_last: "0 < n \<Longrightarrow> progressPercent n n = 90"
proof -
  assume n: "0 < n"
  have "2 * (60 * n + 30 * n) + n = 90 * (2 * n) + n" by simp
  then have "(2 * (60 * n + 30 * n) + n) div (2 * n) = 90 + n div (2 * n)"
    using n by (metis div_mult_self3 mult_is_0 not_less0 zero_neq_numeral)
  with n show ?thesis by (simp add: progressPercent_def)
qed

lemma progressPercent_rounds:
  assumes "0 < n"
  shows "2 * n * progressPercent i n \<le> 2 * (60 * n + 30 * i) + n"
    and "2 * (60 * n + 30 * i) + n < 2 * n * (progressPercent i n + 1)"
proof -
  let ?a = "2 * (60 * n + 30 * i) + n"
  have "2 * n * (?a div (2 * n)) \<le> ?a" by simp
  then show "2 * n * progressPercent i n \<le> ?a" by (simp only: progressPercent_def)
  have "?a < 2 * n * (?a div (2 * n) + 1)"
    using assms by (metis Suc_eq_plus1 dividend_less_times_div mult_is_0 mult_Suc_right add.commute not_gr_zero zero_neq_numeral)
  then show "?a < 2 * n * (progressPercent i n + 1)" by (simp only: progressPercent_def)
qed

section \<open>Progress\<close>

lemma sorted_progress:
  assumes "0 < n"
  shows "sorted ([10, 25, 40, 50, 60] @ map (\<lambda>i. progressPercent i n) [1 ..< Suc n] @ [95, 100])"
proof -
  have mid: "sorted (map (\<lambda>i. progressPercent i n) [1 ..< Suc n])"
    by (rule sorted_map_mono [OF sorted_upt]) (simp add: monotone_on_def progressPercent_mono)
  have bounds: "\<forall>x \<in> set (map (\<lambda>i. progressPercent i n) [1 ..< Suc n]). 60 \<le> x \<and> x \<le> 90"
    using progressPercent_bounds [OF assms] by auto
  have "sorted (map (\<lambda>i. progressPercent i n) [1 ..< Suc n] @ [95, 100])"
    using mid bounds by (fastforce simp: sorted_append)
  moreover have "\<forall>x \<in> set (map (\<lambda>i. progressPercent i n) [1 ..< Suc n] @ [95, 100]). 60 \<le> x"
    using bounds by auto
  ultimately show ?thesis
    by (simp add: sorted_append) (force)
qed


lemma groups_exist:
  assumes "groupByFleeName delivered = Inr groupedData" and "delivered \<noteq> []"
  shows "0 < length (Object_keys groupedData)"
proof -
  from groupByFleeName_invariant(2) [OF assms(1)] assms(2)
  have "map fst groupedData \<noteq> []"
    by (cases delivered) simp_all
  then show ?thesis
    by (simp add: Object_keys_def length_Object_entries)
qed

text \<open>
  Claim C9. A successful run on \<open>n\<close> groups emits the percentages 10, 25, 40, 50, 60, then
  one value per exported group, then 95 and 100, and only then clears the bar. The sequence
  of percentages never decreases. The value emitted after the \<open>i\<close>-th group is
  \<open>60 + 30 i / n\<close> rounded to the nearest integer, lies between 60 and 90, and is 90 after
  the last group.
\<close>

theorem progress_non_decreasing:
  assumes "statusType (processExcel lib hubName f file_chosen) = success"
  shows "\<exists>sheetName jsonData groupedData n.
     f = Some (Workbook sheetName jsonData)
     \<and> groupByFleeName (deliveredData jsonData) = Inr groupedData
     \<and> n = length (Object_keys groupedData) \<and> 0 < n
     \<and> progress_log (processExcel lib hubName f file_chosen)
         = map Percent
             ([10, 25, 40, 50, 60] @ map (\<lambda>i. progressPercent i n) [1 ..< Suc n] @ [95, 100])
           @ [Cleared]
     \<and> sorted ([10, 25, 40, 50, 60] @ map (\<lambda>i. progressPercent i n) [1 ..< Suc n] @ [95, 100])
     \<and> (\<forall>i. 1 \<le> i \<and> i \<le> n \<longrightarrow>
            60 \<le> progressPercent i n \<and> progressPercent i n \<le> 90
            \<and> 2 * n * progressPercent i n \<le> 2 * (60 * n + 30 * i) + n
            \<and> 2 * (60 * n + 30 * i) + n < 2 * n * (progressPercent i n + 1))
     \<and> progressPercent n n = 90"
proof -
  from assms obtain sheetName jsonData groupedData where
    f: "f = Some (Workbook sheetName jsonData)"
    and grouped: "groupByFleeName (deliveredData jsonData) = Inr groupedData"
    and some: "deliveredData jsonData \<noteq> []"
    and run: "processExcel lib hubName f file_chosen
         = \<lparr>status = ''Success! Generated '' @ show_nat (length (Object_keys groupedData))
                      @ '' Excel files (DELIVERED only) and packaged as ZIP'',
            statusType = success,
            stats = Some \<lparr>totalRows = length (deliveredData jsonData),
                           uniqueFiles = length (Object_keys groupedData),
                           fileNames = take 10 (Object_keys groupedData)\<rparr>,
            progress_log =
              map Percent
                ([10, 25, 40, 50, 60]
                 @ map (\<lambda>i. progressPercent i (length (Object_keys groupedData)))
                     [1 ..< Suc (length (Object_keys groupedData))]
                 @ [95, 100])
              @ [Cleared],
            download = Some (hubName @ ''.zip'',
              foldl (\<lambda>z (fleeName, data).
                       zip_file z (cleanFleeName fleeName @ ''.xlsx'')
                         (group_sheet sheetName data))
                    [] (Object_entries groupedData))\<rparr>"
    by (rule processExcel_success_state)
  define n where "n = length (Object_keys groupedData)"
  have pos: "0 < n"
    unfolding n_def using grouped some by (rule groups_exist)
  have log: "progress_log (processExcel lib hubName f file_chosen)
         = map Percent
             ([10, 25, 40, 50, 60] @ map (\<lambda>i. progressPercent i n) [1 ..< Suc n] @ [95, 100])
           @ [Cleared]"
    unfolding run n_def by simp
  have "\<forall>i. 1 \<le> i \<and> i \<le> n \<longrightarrow>
            60 \<le> progressPercent i n \<and> progressPercent i n \<le> 90
            \<and> 2 * n * progressPercent i n \<le> 2 * (60 * n + 30 * i) + n
            \<and> 2 * (60 * n + 30 * i) + n < 2 * n * (progressPercent i n + 1)"
    using progressPercent_bounds [OF pos] progressPercent_rounds [OF pos] by blast
  with f grouped n_def pos log sorted_progress [OF pos] progressPercent_last [OF pos]
  show ?thesis by blast
qed

lemmas run_eval =
  processExcel_def group_and_export_def deliveredData_def isDelivered_def hasOwnProperty_def
  string_eval group_eval Let_def Object_keys_def Object_entries_def
  array_index_eval project_eq colWidths_def cleanFleeName_def replace_illegal_def
  illegal_chars_def zip_file_def progressPercent_def setters report_error_def catch_block_def
  file_chosen_def msg_empty_def msg_missing_column_def msg_no_matches_def show_nat.simps
  quiet_def refusing_long_names_def group_sheet_def

theorem progress_non_decreasing_witness:
  "statusType (processExcel quiet ''hub''
     (Some (Workbook ''Sheet1''
        [[(''FleeName'', ''B''), (''FinalStatus'', ''Delivered'')],
         [(''FleeName'', ''7''), (''FinalStatus'', ''DELIVERED'')]])) file_chosen) = success
   \<and> progress_log (processExcel quiet ''hub''
     (Some (Workbook ''Sheet1''
        [[(''FleeName'', ''B''), (''FinalStatus'', ''Delivered'')],
         [(''FleeName'', ''7''), (''FinalStatus'', ''DELIVERED'')]])) file_chosen)
     = map Percent [10, 25, 40, 50, 60, 75, 90, 95, 100] @ [Cleared]
   \<and> sorted [10, 25, 40, 50, 60, 75, 90, 95, 100 :: nat]"
proof -
  let ?f = "Some (Workbook ''Sheet1''
        [[(''FleeName'', ''B''), (''FinalStatus'', ''Delivered'')],
         [(''FleeName'', ''7''), (''FinalStatus'', ''DELIVERED'')]])"
  have ok: "statusType (processExcel quiet ''hub'' ?f file_chosen) = success"
    by (simp add: run_eval)
  have log: "progress_log (processExcel quiet ''hub'' ?f file_chosen)
     = map Percent [10, 25, 40, 50, 60, 75, 90, 95, 100] @ [Cleared]"
    by (simp add: run_eval)
  from progress_non_decreasing [OF ok] obtain n where
    "progress_log (processExcel quiet ''hub'' ?f file_chosen)
         = map Percent
             ([10, 25, 40, 50, 60] @ map (\<lambda>i. progressPercent i n) [1 ..< Suc n] @ [95, 100])
           @ [Cleared]"
    and s: "sorted ([10, 25, 40, 50, 60] @ map (\<lambda>i. progressPercent i n) [1 ..< Suc n] @ [95, 100])"
    by blast
  with log have "map Percent
             ([10, 25, 40, 50, 60] @ map (\<lambda>i. progressPercent i n) [1 ..< Suc n] @ [95, 100])
       = map Percent [10, 25, 40, 50, 60, 75, 90, 95, 100]"
    by simp
  then have "[10, 25, 40, 50, 60] @ map (\<lambda>i. progressPercent i n) [1 ..< Suc n] @ [95, 100]
       = [10, 25, 40, 50, 60, 75, 90, 95, 100]"
    by (rule map_injective) (simp add: inj_on_def)
  with s have "sorted [10, 25, 40, 50, 60, 75, 90, 95, 100 :: nat]"
    by (simp only:)
  with ok log show ?thesis by (intro conjI)
qed

section \<open>Failures of the reader\<close>

lemma messages_differ:
  "msg_empty \<noteq> msg_missing_column" "msg_empty \<noteq> msg_no_matches"
  "msg_missing_column \<noteq> msg_no_matches"
  "msg_empty \<noteq> ''Processing failed: '' @ m"
  "msg_missing_column \<noteq> ''Processing failed: '' @ m"
  "msg_no_matches \<noteq> ''Processing failed: '' @ m"
  "msg_empty \<noteq> ''Success! Generated '' @ m"
  "msg_missing_column \<noteq> ''Success! Generated '' @ m"
  "msg_no_matches \<noteq> ''Success! Generated '' @ m"
  by (simp_all add: msg_empty_def msg_missing_column_def msg_no_matches_def)

lemma group_and_export_status:
  "status (group_and_export lib hubName sheetName delivered c) \<noteq> msg_empty"
  "status (group_and_export lib hubName sheetName delivered c) \<noteq> msg_missing_column"
  "status (group_and_export lib hubName sheetName delivered c) \<noteq> msg_no_matches"
proof -
  have "status (group_and_export lib hubName sheetName delivered c) \<noteq> msg_empty
    \<and> status (group_and_export lib hubName sheetName delivered c) \<noteq> msg_missing_column
    \<and> status (group_and_export lib hubName sheetName delivered c) \<noteq> msg_no_matches"
  proof (cases rule: group_and_export_cases [of delivered lib hubName sheetName c])
    case (grouping e)
    then show ?thesis
      using messages_differ(4-6) [of "message e"] by (simp add: catch_block_fields)
  next
    case (exporting groupedData e ps)
    then show ?thesis
      using messages_differ(4-6) [of "message e"] by (simp add: catch_block_fields)
  next
    case (archiving groupedData e)
    then show ?thesis
      using messages_differ(4-6) [of "message e"] by (simp add: catch_block_fields)
  next
    case (finished groupedData)
    then show ?thesis
      using messages_differ(7-9)
        [of "show_nat (length (Object_keys groupedData))
             @ '' Excel files (DELIVERED only) and packaged as ZIP''"]
      by simp
  qed
  then show "status (group_and_export lib hubName sheetName delivered c) \<noteq> msg_empty"
    "status (group_and_export lib hubName sheetName delivered c) \<noteq> msg_missing_column"
    "status (group_and_export lib hubName sheetName delivered c) \<noteq> msg_no_matches"
    by blast+
qed

text \<open>
  Claim C7. Whatever the rows, the run ends with the message of the empty file exactly when
  there are no rows; otherwise it ends with the message of the missing column exactly when
  the first row has no \<^verbatim>\<open>FleeName\<close> column, whatever the later rows hold. In both cases
  the run stops there: the state is the error state, the progress bar is cleared after the
  25% or the 40% milestone, and nothing is handed to the browser for download.
\<close>

theorem reader_failures:
  "(status (processExcel lib hubName (Some (Workbook sheetName jsonData)) file_chosen) = msg_empty
      \<longleftrightarrow> jsonData = [])
   \<and> (jsonData \<noteq> [] \<longrightarrow>
        (status (processExcel lib hubName (Some (Workbook sheetName jsonData)) file_chosen)
           = msg_missing_column
         \<longleftrightarrow> \<not> hasOwnProperty (hd jsonData) ''FleeName''))
   \<and> (jsonData = [] \<longrightarrow>
        processExcel lib hubName (Some (Workbook sheetName jsonData)) file_chosen
        = \<lparr>status = msg_empty, statusType = error, stats = None,
           progress_log = [Percent 10, Percent 25, Cleared], download = None\<rparr>)
   \<and> (jsonData \<noteq> [] \<and> \<not> hasOwnProperty (hd jsonData) ''FleeName'' \<longrightarrow>
        processExcel lib hubName (Some (Workbook sheetName jsonData)) file_chosen
        = \<lparr>status = msg_missing_column, statusType = error, stats = None,
           progress_log = [Percent 10, Percent 25, Percent 40, Cleared], download = None\<rparr>)"
proof (intro conjI impI)
  show "status (processExcel lib hubName (Some (Workbook sheetName jsonData)) file_chosen) = msg_empty
      \<longleftrightarrow> jsonData = []"
    using messages_differ(1,2) group_and_export_status(1)
    by (simp add: processExcel_Workbook Let_def report_error_fields)
next
  assume "jsonData \<noteq> []"
  then show "status (processExcel lib hubName (Some (Workbook sheetName jsonData)) file_chosen)
           = msg_missing_column
         \<longleftrightarrow> \<not> hasOwnProperty (hd jsonData) ''FleeName''"
    using messages_differ(3) group_and_export_status(2)
    by (simp add: processExcel_Workbook Let_def report_error_fields)
next
  assume "jsonData = []"
  then show "processExcel lib hubName (Some (Workbook sheetName jsonData)) file_chosen
        = \<lparr>status = msg_empty, statusType = error, stats = None,
           progress_log = [Percent 10, Percent 25, Cleared], download = None\<rparr>"
    by (simp add: processExcel_Workbook Let_def report_error_def setters file_chosen_def)
next
  assume "jsonData \<noteq> [] \<and> \<not> hasOwnProperty (hd jsonData) ''FleeName''"
  then show "processExcel lib hubName (Some (Workbook sheetName jsonData)) file_chosen
        = \<lparr>status = msg_missing_column, statusType = error, stats = None,
           progress_log = [Percent 10, Percent 25, Percent 40, Cleared], download = None\<rparr>"
    by (simp add: processExcel_Workbook Let_def report_error_def setters file_chosen_def)
qed

theorem reader_failures_witness:
  "processExcel quiet ''hub'' (Some (Workbook ''Sheet1'' [])) file_chosen
     = \<lparr>status = msg_empty, statusType = error, stats = None,
        progress_log = [Percent 10, Percent 25, Cleared], download = None\<rparr>
   \<and> processExcel quiet ''hub''
       (Some (Workbook ''Sheet1''
          [[(''FinalStatus'', ''DELIVERED'')],
           [(''FleeName'', ''A''), (''FinalStatus'', ''DELIVERED'')]])) file_chosen
     = \<lparr>status = msg_missing_column, statusType = error, stats = None,
        progress_log = [Percent 10, Percent 25, Percent 40, Cleared], download = None\<rparr>
   \<and> status (processExcel quiet ''hub''
       (Some (Workbook ''Sheet1''
          [[(''FleeName'', ''A''), (''FinalStatus'', ''DELIVERED'')]])) file_chosen)
     \<noteq> msg_missing_column"
proof -
  have first: "[[(''FinalStatus'', ''DELIVERED'')],
                [(''FleeName'', ''A''), (''FinalStatus'', ''DELIVERED'')]] \<noteq> []
      \<and> \<not> hasOwnProperty
            (hd [[(''FinalStatus'', ''DELIVERED'')],
                 [(''FleeName'', ''A''), (''FinalStatus'', ''DELIVERED'')]]) ''FleeName''"
    by (simp add: hasOwnProperty_def)
  have present: "[[(''FleeName'', ''A''), (''FinalStatus'', ''DELIVERED'')]] \<noteq> []"
    "hasOwnProperty (hd [[(''FleeName'', ''A''), (''FinalStatus'', ''DELIVERED'')]]) ''FleeName''"
    by (simp_all add: hasOwnProperty_def)
  from reader_failures [of quiet "''hub''" "''Sheet1''" "[]"]
  have 1: "processExcel quiet ''hub'' (Some (Workbook ''Sheet1'' [])) file_chosen
     = \<lparr>status = msg_empty, statusType = error, stats = None,
        progress_log = [Percent 10, Percent 25, Cleared], download = None\<rparr>"
    by blast
  from reader_failures [of quiet "''hub''" "''Sheet1''"
      "[[(''FinalStatus'', ''DELIVERED'')],
        [(''FleeName'', ''A''), (''FinalStatus'', ''DELIVERED'')]]"] first
  have 2: "processExcel quiet ''hub''
       (Some (Workbook ''Sheet1''
          [[(''FinalStatus'', ''DELIVERED'')],
           [(''FleeName'', ''A''), (''FinalStatus'', ''DELIVERED'')]])) file_chosen
     = \<lparr>status = msg_missing_column, statusType = error, stats = None,
        progress_log = [Percent 10, Percent 25, Percent 40, Cleared], download = None\<rparr>"
    by blast
  from reader_failures [of quiet "''hub''" "''Sheet1''"
      "[[(''FleeName'', ''A''), (''FinalStatus'', ''DELIVERED'')]]"] present
  have 3: "status (processExcel quiet ''hub''
       (Some (Workbook ''Sheet1''
          [[(''FleeName'', ''A''), (''FinalStatus'', ''DELIVERED'')]])) file_chosen)
     \<noteq> msg_missing_column"
    by blast
  show ?thesis
    by (intro conjI 1 2 3)
qed

section \<open>Failure of the filter, and failing fast\<close>

lemma processExcel_success_iff:
  "statusType (processExcel lib hubName (Some (Workbook sheetName jsonData)) file_chosen) = success
   \<longleftrightarrow> jsonData \<noteq> [] \<and> hasOwnProperty (hd jsonData) ''FleeName''
       \<and> deliveredData jsonData \<noteq> []
       \<and> (\<exists>groupedData.
            groupByFleeName (deliveredData jsonData) = Inr groupedData
            \<and> (\<forall>(fleeName, data) \<in> set (Object_entries groupedData).
                  json_to_sheet_throws lib (map project data) = None
                  \<and> book_append_sheet_throws lib (group_sheet sheetName data) = None
                  \<and> write_throws lib (group_sheet sheetName data) = None)
            \<and> generateAsync_throws lib
                  (foldl (\<lambda>z (fleeName, data).
                            zip_file z (cleanFleeName fleeName @ ''.xlsx'')
                              (group_sheet sheetName data))
                     [] (Object_entries groupedData)) = None)"
  (is "?run = success \<longleftrightarrow> ?pre \<and> ?first \<and> ?some \<and> ?quiet")
proof (cases "?pre \<and> ?first \<and> ?some")
  case False
  then have "?run = error"
    by (auto simp: processExcel_Workbook Let_def report_error_fields)
  with False show ?thesis by auto
next
  case True
  let ?c40 = "setProgress (Percent 40) (setProgress (Percent 25) (setProgress (Percent 10)
                 (setStatusType processing (setStatus ''Reading file...'' file_chosen))))"
  from True have run:
    "processExcel lib hubName (Some (Workbook sheetName jsonData)) file_chosen
     = group_and_export lib hubName sheetName (deliveredData jsonData) ?c40"
    by (simp add: processExcel_Workbook Let_def)
  have "statusType (group_and_export lib hubName sheetName (deliveredData jsonData) ?c40)
          = success \<longleftrightarrow> ?quiet"
  proof (cases rule: group_and_export_cases
      [of "deliveredData jsonData" lib hubName sheetName ?c40])
    case (grouping e)
    then show ?thesis by (simp add: catch_block_fields)
  next
    case (exporting groupedData e ps)
    from exporting(2) have "\<not> (\<forall>(fleeName, data) \<in> set (Object_entries groupedData).
                  json_to_sheet_throws lib (map project data) = None
                  \<and> book_append_sheet_throws lib (group_sheet sheetName data) = None
                  \<and> write_throws lib (group_sheet sheetName data) = None)"
      by fastforce
    with exporting(1,3) show ?thesis by (simp add: catch_block_fields)
  next
    case (archiving groupedData e)
    then show ?thesis by (simp add: catch_block_fields)
  next
    case (finished groupedData)
    then show ?thesis by simp
  qed
  with True run show ?thesis by simp
qed

lemma processExcel_ends:
  "statusType (processExcel lib hubName (Some content) file_chosen) = success
   \<or> statusType (processExcel lib hubName (Some content) file_chosen) = error"
proof (cases content)
  case (Unreadable e)
  then show ?thesis by (simp add: processExcel_def catch_block_fields)
next
  case (Workbook sheetName jsonData)
  let ?c40 = "setProgress (Percent 40) (setProgress (Percent 25) (setProgress (Percent 10)
                 (setStatusType processing (setStatus ''Reading file...'' file_chosen))))"
  have "statusType (group_and_export lib hubName sheetName (deliveredData jsonData) ?c40) = success
        \<or> statusType (group_and_export lib hubName sheetName (deliveredData jsonData) ?c40) = error"
    by (cases rule: group_and_export_cases
          [of "deliveredData jsonData" lib hubName sheetName ?c40])
       (simp_all add: catch_block_fields)
  with Workbook show ?thesis
    by (auto simp: processExcel_Workbook Let_def report_error_fields)
qed

lemma processExcel_error_state:
  assumes "statusType (processExcel lib hubName f file_chosen) = error"
  shows "download (processExcel lib hubName f file_chosen) = None
    \<and> stats (processExcel lib hubName f file_chosen) = None
    \<and> last (progress_log (processExcel lib hubName f file_chosen)) = Cleared
    \<and> (status (processExcel lib hubName f file_chosen) = msg_empty
       \<or> status (processExcel lib hubName f file_chosen) = msg_missing_column
       \<or> status (processExcel lib hubName f file_chosen) = msg_no_matches
       \<or> (\<exists>e. status (processExcel lib hubName f file_chosen)
                = ''Processing failed: '' @ message e))"
proof (cases f)
  case None
  with assms show ?thesis by (simp add: processExcel_def file_chosen_def)
next
  case (Some content)
  show ?thesis
  proof (cases content)
    case (Unreadable e)
    with Some show ?thesis
      by (auto simp: processExcel_def catch_block_fields setters file_chosen_def)
  next
    case (Workbook sheetName jsonData)
    let ?c40 = "setProgress (Percent 40) (setProgress (Percent 25) (setProgress (Percent 10)
                 (setStatusType processing (setStatus ''Reading file...'' file_chosen))))"
    show ?thesis
    proof (cases "jsonData \<noteq> [] \<and> hasOwnProperty (hd jsonData) ''FleeName''
                  \<and> deliveredData jsonData \<noteq> []")
      case False
      with Some Workbook show ?thesis
        by (auto simp: processExcel_Workbook Let_def report_error_fields setters file_chosen_def)
    next
      case True
      then have run: "processExcel lib hubName f file_chosen
            = group_and_export lib hubName sheetName (deliveredData jsonData) ?c40"
        using Some Workbook by (simp add: processExcel_Workbook Let_def)
      from assms have failed: "statusType (group_and_export lib hubName sheetName
                                  (deliveredData jsonData) ?c40) = error"
        by (simp only: run)
      show ?thesis
      proof (cases rule: group_and_export_cases
          [of "deliveredData jsonData" lib hubName sheetName ?c40])
        case (grouping e)
        then show ?thesis
          unfolding run by (auto simp: catch_block_fields setters file_chosen_def)
      next
        case (exporting groupedData e ps)
        then show ?thesis
          unfolding run by (auto simp: catch_block_fields setters file_chosen_def)
      next
        case (archiving groupedData e)
        then show ?thesis
          unfolding run by (auto simp: catch_block_fields setters file_chosen_def)
      next
        case (finished groupedData)
        with failed show ?thesis by simp
      qed
    qed
  qed
qed


text \<open>
  Claim C8, as amended. For every input that passes the two checks of the reader (there is
  a row, and the first row has the \<^verbatim>\<open>FleeName\<close> column) and of which no row passes the
  status filter, the run ends in the failure that reports no delivered records. And every
  run that ends in the error state, whatever the stage that failed, hands nothing to the
  browser, sets no statistics, clears the progress bar last, and leaves one message: one of
  the three fixed messages, or the generic one that carries the text of the exception.
  A run on a sheet succeeds exactly when the reader's checks pass, a row passes the filter,
  the grouping completes, no call of the library throws on a group, and the archive is
  generated; every other run on a file ends in the error state.
\<close>

theorem no_matches_and_fail_fast:
  "(jsonData \<noteq> [] \<and> hasOwnProperty (hd jsonData) ''FleeName'' \<and> deliveredData jsonData = []
      \<longrightarrow> processExcel lib hubName (Some (Workbook sheetName jsonData)) file_chosen
          = \<lparr>status = msg_no_matches, statusType = error, stats = None,
             progress_log = [Percent 10, Percent 25, Percent 40, Cleared], download = None\<rparr>)
   \<and> (statusType (processExcel lib hubName f file_chosen) = error
      \<longrightarrow> download (processExcel lib hubName f file_chosen) = None
        \<and> stats (processExcel lib hubName f file_chosen) = None
        \<and> last (progress_log (processExcel lib hubName f file_chosen)) = Cleared
        \<and> (status (processExcel lib hubName f file_chosen) = msg_empty
           \<or> status (processExcel lib hubName f file_chosen) = msg_missing_column
           \<or> status (processExcel lib hubName f file_chosen) = msg_no_matches
           \<or> (\<exists>e. status (processExcel lib hubName f file_chosen)
                    = ''Processing failed: '' @ message e)))
   \<and> (statusType (processExcel lib hubName (Some (Workbook sheetName jsonData)) file_chosen)
        = success
      \<longleftrightarrow> jsonData \<noteq> [] \<and> hasOwnProperty (hd jsonData) ''FleeName''
          \<and> deliveredData jsonData \<noteq> []
          \<and> (\<exists>groupedData.
               groupByFleeName (deliveredData jsonData) = Inr groupedData
               \<and> (\<forall>(fleeName, data) \<in> set (Object_entries groupedData).
                     json_to_sheet_throws lib (map project data) = None
                     \<and> book_append_sheet_throws lib (group_sheet sheetName data) = None
                     \<and> write_throws lib (group_sheet sheetName data) = None)
               \<and> generateAsync_throws lib
                     (foldl (\<lambda>z (fleeName, data).
                               zip_file z (cleanFleeName fleeName @ ''.xlsx'')
                                 (group_sheet sheetName data))
                        [] (Object_entries groupedData)) = None))
   \<and> (f \<noteq> None
      \<longrightarrow> statusType (processExcel lib hubName f file_chosen) = success
        \<or> statusType (processExcel lib hubName f file_chosen) = error)"
proof (intro conjI)
  show "jsonData \<noteq> [] \<and> hasOwnProperty (hd jsonData) ''FleeName'' \<and> deliveredData jsonData = []
      \<longrightarrow> processExcel lib hubName (Some (Workbook sheetName jsonData)) file_chosen
          = \<lparr>status = msg_no_matches, statusType = error, stats = None,
             progress_log = [Percent 10, Percent 25, Percent 40, Cleared], download = None\<rparr>"
    by (simp add: processExcel_Workbook Let_def report_error_def setters file_chosen_def)
  show "statusType (processExcel lib hubName f file_chosen) = error
      \<longrightarrow> download (processExcel lib hubName f file_chosen) = None
        \<and> stats (processExcel lib hubName f file_chosen) = None
        \<and> last (progress_log (processExcel lib hubName f file_chosen)) = Cleared
        \<and> (status (processExcel lib hubName f file_chosen) = msg_empty
           \<or> status (processExcel lib hubName f file_chosen) = msg_missing_column
           \<or> status (processExcel lib hubName f file_chosen) = msg_no_matches
           \<or> (\<exists>e. status (processExcel lib hubName f file_chosen)
                    = ''Processing failed: '' @ message e))"
    by (rule impI) (rule processExcel_error_state)
  show "statusType (processExcel lib hubName (Some (Workbook sheetName jsonData)) file_chosen)
        = success
      \<longleftrightarrow> jsonData \<noteq> [] \<and> hasOwnProperty (hd jsonData) ''FleeName''
          \<and> deliveredData jsonData \<noteq> []
          \<and> (\<exists>groupedData.
               groupByFleeName (deliveredData jsonData) = Inr groupedData
               \<and> (\<forall>(fleeName, data) \<in> set (Object_entries groupedData).
                     json_to_sheet_throws lib (map project data) = None
                     \<and> book_append_sheet_throws lib (group_sheet sheetName data) = None
                     \<and> write_throws lib (group_sheet sheetName data) = None)
               \<and> generateAsync_throws lib
                     (foldl (\<lambda>z (fleeName, data).
                               zip_file z (cleanFleeName fleeName @ ''.xlsx'')
                                 (group_sheet sheetName data))
                        [] (Object_entries groupedData)) = None)"
    by (rule processExcel_success_iff)
  show "f \<noteq> None
      \<longrightarrow> statusType (processExcel lib hubName f file_chosen) = success
        \<or> statusType (processExcel lib hubName f file_chosen) = error"
    using processExcel_ends [of lib hubName _] by (cases f) auto
qed

theorem no_matches_and_fail_fast_witness:
  "processExcel quiet ''hub''
     (Some (Workbook ''Sheet1''
        [[(''FleeName'', ''A''), (''FinalStatus'', ''IN_TRANSIT'')],
         [(''FleeName'', ''B''), (''FinalStatus'', ''IN_TRANSIT'')]])) file_chosen
   = \<lparr>status = msg_no_matches, statusType = error, stats = None,
      progress_log = [Percent 10, Percent 25, Percent 40, Cleared], download = None\<rparr>
   \<and> statusType (processExcel quiet ''hub''
        (Some (Workbook ''Sheet1''
           [[(''FleeName'', ''toString''), (''FinalStatus'', ''DELIVERED'')]])) file_chosen) = error
   \<and> download (processExcel quiet ''hub''
        (Some (Workbook ''Sheet1''
           [[(''FleeName'', ''toString''), (''FinalStatus'', ''DELIVERED'')]])) file_chosen) = None
   \<and> processExcel refusing_long_names ''hub''
        (Some (Workbook ''A sheet name of 32 characters...''
           [[(''FleeName'', ''A''), (''FinalStatus'', ''DELIVERED'')]])) file_chosen
     = \<lparr>status = ''Processing failed: Sheet names cannot exceed 31 chars'',
        statusType = error, stats = None,
        progress_log = [Percent 10, Percent 25, Percent 40, Percent 50, Percent 60, Cleared],
        download = None\<rparr>
   \<and> statusType (processExcel
        (quiet\<lparr>generateAsync_throws := (\<lambda>z. Some (Error ''out of memory''))\<rparr>) ''hub''
        (Some (Workbook ''Sheet1''
           [[(''FleeName'', ''A''), (''FinalStatus'', ''DELIVERED'')]])) file_chosen) = error
   \<and> download (processExcel
        (quiet\<lparr>generateAsync_throws := (\<lambda>z. Some (Error ''out of memory''))\<rparr>) ''hub''
        (Some (Workbook ''Sheet1''
           [[(''FleeName'', ''A''), (''FinalStatus'', ''DELIVERED'')]])) file_chosen) = None
   \<and> progress_log (processExcel
        (quiet\<lparr>generateAsync_throws := (\<lambda>z. Some (Error ''out of memory''))\<rparr>) ''hub''
        (Some (Workbook ''Sheet1''
           [[(''FleeName'', ''A''), (''FinalStatus'', ''DELIVERED'')]])) file_chosen)
     = [Percent 10, Percent 25, Percent 40, Percent 50, Percent 60, Percent 90, Percent 95,
        Cleared]"
proof -
  let ?full = "quiet\<lparr>generateAsync_throws := (\<lambda>z. Some (Error ''out of memory''))\<rparr>"
  let ?one = "Some (Workbook ''Sheet1''
           [[(''FleeName'', ''A''), (''FinalStatus'', ''DELIVERED'')]])"
  have pre: "[[(''FleeName'', ''A''), (''FinalStatus'', ''IN_TRANSIT'')],
              [(''FleeName'', ''B''), (''FinalStatus'', ''IN_TRANSIT'')]] \<noteq> []
     \<and> hasOwnProperty
          (hd [[(''FleeName'', ''A''), (''FinalStatus'', ''IN_TRANSIT'')],
               [(''FleeName'', ''B''), (''FinalStatus'', ''IN_TRANSIT'')]]) ''FleeName''
     \<and> deliveredData
          [[(''FleeName'', ''A''), (''FinalStatus'', ''IN_TRANSIT'')],
           [(''FleeName'', ''B''), (''FinalStatus'', ''IN_TRANSIT'')]] = []"
    by (simp add: hasOwnProperty_def deliveredData_def isDelivered_def get_prop_def
        or_default_def string_eval)
  have failed: "statusType (processExcel quiet ''hub''
        (Some (Workbook ''Sheet1''
           [[(''FleeName'', ''toString''), (''FinalStatus'', ''DELIVERED'')]])) file_chosen) = error"
    by (simp add: run_eval)
  have refused: "processExcel refusing_long_names ''hub''
        (Some (Workbook ''A sheet name of 32 characters...''
           [[(''FleeName'', ''A''), (''FinalStatus'', ''DELIVERED'')]])) file_chosen
     = \<lparr>status = ''Processing failed: Sheet names cannot exceed 31 chars'',
        statusType = error, stats = None,
        progress_log = [Percent 10, Percent 25, Percent 40, Percent 50, Percent 60, Cleared],
        download = None\<rparr>"
    by (simp add: run_eval)
  have full: "statusType (processExcel ?full ''hub'' ?one file_chosen) = error"
    by (simp add: run_eval)
  have log: "progress_log (processExcel ?full ''hub'' ?one file_chosen)
     = [Percent 10, Percent 25, Percent 40, Percent 50, Percent 60, Percent 90, Percent 95,
        Cleared]"
    by (simp add: run_eval)
  from no_matches_and_fail_fast
         [where jsonData = "[[(''FleeName'', ''A''), (''FinalStatus'', ''IN_TRANSIT'')],
               [(''FleeName'', ''B''), (''FinalStatus'', ''IN_TRANSIT'')]]"
            and lib = quiet and hubName = "''hub''" and sheetName = "''Sheet1''"] pre
  have 1: "processExcel quiet ''hub''
     (Some (Workbook ''Sheet1''
        [[(''FleeName'', ''A''), (''FinalStatus'', ''IN_TRANSIT'')],
         [(''FleeName'', ''B''), (''FinalStatus'', ''IN_TRANSIT'')]])) file_chosen
   = \<lparr>status = msg_no_matches, statusType = error, stats = None,
      progress_log = [Percent 10, Percent 25, Percent 40, Cleared], download = None\<rparr>"
    by blast
  from no_matches_and_fail_fast
         [where lib = quiet and hubName = "''hub''"
            and f = "Some (Workbook ''Sheet1''
                [[(''FleeName'', ''toString''), (''FinalStatus'', ''DELIVERED'')]])"] failed
  have 2: "download (processExcel quiet ''hub''
        (Some (Workbook ''Sheet1''
           [[(''FleeName'', ''toString''), (''FinalStatus'', ''DELIVERED'')]])) file_chosen) = None"
    by blast
  from no_matches_and_fail_fast [where lib = ?full and hubName = "''hub''" and f = ?one] full
  have 3: "download (processExcel ?full ''hub'' ?one file_chosen) = None"
    by blast
  show ?thesis
    by (intro conjI 1 failed 2 refused full 3 log)
qed

text \<open>
  One row in transit and no \<^verbatim>\<open>FleeName\<close> column: no row passes the filter, and the run
  ends with the message of the missing column. No row at all: again no row passes the
  filter, and the run ends with the message of the empty file.
\<close>

theorem missing_column_before_no_matches_counterexample:
  "deliveredData [[(''FinalStatus'', ''IN_TRANSIT'')]] = []
   \<and> status (processExcel quiet ''hub''
        (Some (Workbook ''Sheet1'' [[(''FinalStatus'', ''IN_TRANSIT'')]])) file_chosen)
     = msg_missing_column
   \<and> status (processExcel quiet ''hub''
        (Some (Workbook ''Sheet1'' [[(''FinalStatus'', ''IN_TRANSIT'')]])) file_chosen)
     \<noteq> msg_no_matches
   \<and> deliveredData [] = []
   \<and> status (processExcel quiet ''hub'' (Some (Workbook ''Sheet1'' [])) file_chosen) = msg_empty
   \<and> status (processExcel quiet ''hub'' (Some (Workbook ''Sheet1'' [])) file_chosen)
     \<noteq> msg_no_matches"
  by (simp add: run_eval)

section \<open>The archive and the statistics\<close>

lemma keys_obj_set:
  "map fst (obj_set obj k v)
   = (if k \<in> set (map fst obj) then map fst obj else map fst obj @ [k])"
proof -
  have "map fst (map (\<lambda>(k', v'). if k' = k then (k', v) else (k', v')) obj) = map fst obj"
    by (induction obj) auto
  then show ?thesis by (simp add: obj_set_def)
qed

lemma keys_zip_entries:
  "map fst (foldl (\<lambda>z (fleeName, data). zip_file z (name fleeName) (content fleeName data))
              [] entries)
   = first_seen (map (\<lambda>(fleeName, data). name fleeName) entries)"
proof (induction entries rule: rev_induct)
  case Nil
  then show ?case by simp
next
  case (snoc e entries)
  obtain fleeName data where e: "e = (fleeName, data)" by (cases e)
  have "set (first_seen (map (\<lambda>(fleeName, data). name fleeName) entries))
        = set (map (\<lambda>(fleeName, data). name fleeName) entries)"
    by (rule set_first_seen)
  with snoc.IH show ?case
    unfolding e by (simp add: zip_file_def keys_obj_set first_seen_snoc)
qed

lemma length_first_seen: "length (first_seen xs) = card (set xs)"
  by (metis distinct_card distinct_first_seen set_first_seen)

lemma length_first_seen_le: "length (first_seen xs) \<le> length xs"
  by (simp add: length_first_seen card_length)

lemma length_first_seen_eq_iff: "length (first_seen xs) = length xs \<longleftrightarrow> distinct xs"
  by (metis card_distinct distinct_card length_first_seen)

lemma isWhiteSpace_replace:
  "isWhiteSpace (if c \<in> set illegal_chars then CHR ''_'' else c) = isWhiteSpace c"
  by (auto simp: isWhiteSpace_def isWhiteSpace_unit_def illegal_chars_def)

lemma trim_replace_illegal: "trim (replace_illegal s) = replace_illegal (trim s)"
  unfolding trim_def trimStart_def trimEnd_def replace_illegal_def
  by (simp add: dropWhile_map rev_map comp_def isWhiteSpace_replace)

lemma replace_illegal_clean: "c \<in> set (replace_illegal s) \<Longrightarrow> c \<notin> set illegal_chars"
  by (auto simp: replace_illegal_def illegal_chars_def)

lemma group_key_trimmed:
  assumes "groupByFleeName delivered = Inr groupedData"
    and "k \<in> set (Object_keys groupedData)"
  shows "trim k = k"
proof -
  from assms(2) have "k \<in> set (map fst groupedData)"
    by (simp add: Object_keys_def set_Object_entries)
  then have "k \<in> set (map fleeName_of delivered)"
    by (simp only: groupByFleeName_invariant(2) [OF assms(1)] set_first_seen)
  then obtain r where "k = fleeName_of r" by auto
  then show ?thesis
    by (simp add: fleeName_of_def trim_idem)
qed

lemma cleanFleeName_group_key:
  assumes "groupByFleeName delivered = Inr groupedData"
    and "k \<in> set (Object_keys groupedData)"
  shows "cleanFleeName k = replace_illegal k"
  using group_key_trimmed [OF assms]
  by (simp add: cleanFleeName_def trim_replace_illegal)

lemma map_of_obj_set:
  "map_of (obj_set obj k v) k' = (if k' = k then Some v else map_of obj k')"
proof (cases "k \<in> set (map fst obj)")
  case True
  have "map_of (map (\<lambda>(k', v'). if k' = k then (k', v) else (k', v')) obj) k'
        = (if k' = k \<and> k \<in> set (map fst obj) then Some v else map_of obj k')"
  proof (induction obj)
    case Nil
    then show ?case by simp
  next
    case (Cons p obj)
    obtain a b where p: "p = (a, b)" by (cases p)
    show ?case
      unfolding p using Cons.IH
      by (cases "a = k"; cases "k' = k") (simp_all add: map_of_eq_None_iff)
  qed
  with True show ?thesis by (simp add: obj_set_def)
next
  case False
  then have "map_of obj k = None"
    by (simp add: map_of_eq_None_iff)
  with False show ?thesis
    by (auto simp: obj_set_def map_add_def split: option.splits)
qed

text \<open>The workbook stored under a name is that of the last group written under it.\<close>

lemma payload_zip_entries:
  assumes "n \<in> set (map (\<lambda>(fleeName, data). name fleeName) entries)"
  shows "map_of (foldl (\<lambda>z (fleeName, data). zip_file z (name fleeName) (content data))
                   [] entries) n
         = Some (content (snd (last (filter (\<lambda>(fleeName, data). name fleeName = n) entries))))"
  using assms
proof (induction entries rule: rev_induct)
  case Nil
  then show ?case by simp
next
  case (snoc e entries)
  obtain fleeName data where e: "e = (fleeName, data)" by (cases e)
  show ?case
  proof (cases "name fleeName = n")
    case True
    then show ?thesis
      unfolding e by (simp add: zip_file_def map_of_obj_set)
  next
    case False
    with snoc.prems have "n \<in> set (map (\<lambda>(fleeName, data). name fleeName) entries)"
      unfolding e by auto
    from snoc.IH [OF this] False show ?thesis
      unfolding e by (simp add: zip_file_def map_of_obj_set)
  qed
qed


text \<open>
  Claim C5, as amended. On every successful run the archive handed to the browser holds one
  entry per distinct sanitized name: the entry names are, in first-occurrence order, the
  group keys with every character of the class replaced by an underscore and \<^verbatim>\<open>.xlsx\<close>
  appended; no entry name contains a character of the class; the number of entries is at
  most the number of groups, and equals it exactly when no two group keys share their
  sanitized name. The workbook stored under a name is that of the last group, in the order
  of enumeration, whose key has this sanitized name.
\<close>

theorem archive_entries:
  assumes "statusType (processExcel lib hubName f file_chosen) = success"
  shows "\<exists>sheetName jsonData groupedData z.
     f = Some (Workbook sheetName jsonData)
     \<and> groupByFleeName (deliveredData jsonData) = Inr groupedData
     \<and> download (processExcel lib hubName f file_chosen) = Some (hubName @ ''.zip'', z)
     \<and> map fst z
         = first_seen (map (\<lambda>k. replace_illegal k @ ''.xlsx'') (Object_keys groupedData))
     \<and> length z \<le> length (Object_keys groupedData)
     \<and> (length z = length (Object_keys groupedData)
          \<longleftrightarrow> distinct (map replace_illegal (Object_keys groupedData)))
     \<and> (\<forall>name \<in> set (map fst z). \<forall>ch \<in> set name. ch \<notin> set illegal_chars)
     \<and> distinct (map fst z)
     \<and> (\<forall>name \<in> set (map fst z).
          map_of z name
          = Some (group_sheet sheetName
                    (snd (last (filter (\<lambda>(fleeName, data).
                                          replace_illegal fleeName @ ''.xlsx'' = name)
                                  (Object_entries groupedData))))))"
proof -
  from assms obtain sheetName jsonData groupedData where
    f: "f = Some (Workbook sheetName jsonData)"
    and grouped: "groupByFleeName (deliveredData jsonData) = Inr groupedData"
    and run: "processExcel lib hubName f file_chosen
         = \<lparr>status = ''Success! Generated '' @ show_nat (length (Object_keys groupedData))
                      @ '' Excel files (DELIVERED only) and packaged as ZIP'',
            statusType = success,
            stats = Some \<lparr>totalRows = length (deliveredData jsonData),
                           uniqueFiles = length (Object_keys groupedData),
                           fileNames = take 10 (Object_keys groupedData)\<rparr>,
            progress_log =
              map Percent
                ([10, 25, 40, 50, 60]
                 @ map (\<lambda>i. progressPercent i (length (Object_keys groupedData)))
                     [1 ..< Suc (length (Object_keys groupedData))]
                 @ [95, 100])
              @ [Cleared],
            download = Some (hubName @ ''.zip'',
              foldl (\<lambda>z (fleeName, data).
                       zip_file z (cleanFleeName fleeName @ ''.xlsx'')
                         (group_sheet sheetName data))
                    [] (Object_entries groupedData))\<rparr>"
    by (rule processExcel_success_state)
  define z where "z = foldl (\<lambda>z (fleeName, data).
                          zip_file z (cleanFleeName fleeName @ ''.xlsx'')
                            (group_sheet sheetName data))
                       [] (Object_entries groupedData)"
  let ?names = "map (\<lambda>k. replace_illegal k @ ''.xlsx'') (Object_keys groupedData)"
  have dl: "download (processExcel lib hubName f file_chosen) = Some (hubName @ ''.zip'', z)"
    unfolding run z_def by simp
  have clean_key: "cleanFleeName fleeName = replace_illegal fleeName"
    if "(fleeName, data) \<in> set (Object_entries groupedData)" for fleeName data
  proof -
    from that have "fleeName \<in> set (Object_keys groupedData)"
      unfolding Object_keys_def by force
    with grouped show ?thesis by (rule cleanFleeName_group_key)
  qed
  have names: "map (\<lambda>(fleeName, data). cleanFleeName fleeName @ ''.xlsx'')
                 (Object_entries groupedData) = ?names"
  proof -
    have "map (\<lambda>(fleeName, data). cleanFleeName fleeName @ ''.xlsx'') (Object_entries groupedData)
          = map (\<lambda>(fleeName, data). replace_illegal fleeName @ ''.xlsx'')
              (Object_entries groupedData)"
      by (rule map_cong) (auto simp: clean_key)
    then show ?thesis
      by (simp add: Object_keys_def case_prod_unfold comp_def)
  qed
  have "map fst z = first_seen (map (\<lambda>(fleeName, data). cleanFleeName fleeName @ ''.xlsx'')
                                 (Object_entries groupedData))"
    unfolding z_def
    by (rule keys_zip_entries
        [of "\<lambda>fleeName. cleanFleeName fleeName @ ''.xlsx''"
            "\<lambda>fleeName data. group_sheet sheetName data"])
  then have keys: "map fst z = first_seen ?names"
    by (simp only: names)
  then have len: "length z = length (first_seen ?names)"
    by (metis length_map)
  have le: "length z \<le> length (Object_keys groupedData)"
    unfolding len using length_first_seen_le [of ?names] by simp
  have "distinct ?names \<longleftrightarrow> distinct (map replace_illegal (Object_keys groupedData))"
  proof -
    have "?names = map (\<lambda>s. s @ ''.xlsx'') (map replace_illegal (Object_keys groupedData))"
      by simp
    moreover have "inj_on (\<lambda>s. s @ ''.xlsx'') (set (map replace_illegal (Object_keys groupedData)))"
      by (rule inj_onI) simp
    ultimately show ?thesis
      by (simp only: distinct_map) simp
  qed
  then have eq: "length z = length (Object_keys groupedData)
          \<longleftrightarrow> distinct (map replace_illegal (Object_keys groupedData))"
    unfolding len using length_first_seen_eq_iff [of ?names] by simp
  have clean: "\<forall>name \<in> set (map fst z). \<forall>ch \<in> set name. ch \<notin> set illegal_chars"
  proof (intro ballI)
    fix name ch
    assume "name \<in> set (map fst z)" and ch: "ch \<in> set name"
    then have "name \<in> set ?names"
      by (simp only: keys set_first_seen)
    then obtain k where "name = replace_illegal k @ ''.xlsx''" by auto
    with ch have "ch \<in> set (replace_illegal k) \<or> ch \<in> set ''.xlsx''" by auto
    then show "ch \<notin> set illegal_chars"
    proof
      assume "ch \<in> set (replace_illegal k)"
      then show ?thesis by (rule replace_illegal_clean)
    next
      assume "ch \<in> set ''.xlsx''"
      then show ?thesis by (auto simp: illegal_chars_def)
    qed
  qed
  have dist: "distinct (map fst z)"
    unfolding keys by (rule distinct_first_seen)
  have payload: "\<forall>name \<in> set (map fst z).
          map_of z name
          = Some (group_sheet sheetName
                    (snd (last (filter (\<lambda>(fleeName, data).
                                          replace_illegal fleeName @ ''.xlsx'' = name)
                                  (Object_entries groupedData)))))"
  proof
    fix name
    assume "name \<in> set (map fst z)"
    then have "name \<in> set (map (\<lambda>(fleeName, data). cleanFleeName fleeName @ ''.xlsx'')
                                 (Object_entries groupedData))"
      by (simp only: keys set_first_seen names)
    then have "map_of z name
          = Some (group_sheet sheetName
                    (snd (last (filter (\<lambda>(fleeName, data).
                                          cleanFleeName fleeName @ ''.xlsx'' = name)
                                  (Object_entries groupedData)))))"
      unfolding z_def
      by (rule payload_zip_entries
          [of name "\<lambda>fleeName. cleanFleeName fleeName @ ''.xlsx''" _ "group_sheet sheetName"])
    moreover have "filter (\<lambda>(fleeName, data). cleanFleeName fleeName @ ''.xlsx'' = name)
                     (Object_entries groupedData)
          = filter (\<lambda>(fleeName, data). replace_illegal fleeName @ ''.xlsx'' = name)
              (Object_entries groupedData)"
      by (rule filter_cong) (auto simp: clean_key)
    ultimately show "map_of z name
          = Some (group_sheet sheetName
                    (snd (last (filter (\<lambda>(fleeName, data).
                                          replace_illegal fleeName @ ''.xlsx'' = name)
                                  (Object_entries groupedData)))))"
      by (simp only:)
  qed
  from f grouped dl keys le eq clean dist payload show ?thesis by blast
qed


theorem archive_entries_witness:
  "statusType (processExcel quiet ''hub''
     (Some (Workbook ''Sheet1''
        [[(''FleeName'', ''A/B''), (''FinalStatus'', ''DELIVERED'')],
         [(''FleeName'', ''C''), (''FinalStatus'', ''DELIVERED'')],
         [(''FleeName'', ''A:B''), (''FinalStatus'', ''DELIVERED'')]])) file_chosen) = success
   \<and> (\<exists>z. download (processExcel quiet ''hub''
           (Some (Workbook ''Sheet1''
              [[(''FleeName'', ''A/B''), (''FinalStatus'', ''DELIVERED'')],
               [(''FleeName'', ''C''), (''FinalStatus'', ''DELIVERED'')],
               [(''FleeName'', ''A:B''), (''FinalStatus'', ''DELIVERED'')]])) file_chosen)
          = Some (''hub.zip'', z)
        \<and> map fst z = [''A_B.xlsx'', ''C.xlsx''] \<and> length z = 2
        \<and> map_of z ''A_B.xlsx''
            = Some \<lparr>sheet_name = ''Sheet1'',
                     sheet_rows = [[(''FleeName'', ''A:B''), (''FinalStatus'', ''DELIVERED'')]],
                     sheet_cols = [15, 15]\<rparr>
        \<and> map_of z ''C.xlsx''
            = Some \<lparr>sheet_name = ''Sheet1'',
                     sheet_rows = [[(''FleeName'', ''C''), (''FinalStatus'', ''DELIVERED'')]],
                     sheet_cols = [15, 15]\<rparr>)"
proof -
  let ?rows = "[[(''FleeName'', ''A/B''), (''FinalStatus'', ''DELIVERED'')],
                [(''FleeName'', ''C''), (''FinalStatus'', ''DELIVERED'')],
                [(''FleeName'', ''A:B''), (''FinalStatus'', ''DELIVERED'')]]"
  let ?g = "[(''A/B'', [[(''FleeName'', ''A/B''), (''FinalStatus'', ''DELIVERED'')]]),
             (''C'', [[(''FleeName'', ''C''), (''FinalStatus'', ''DELIVERED'')]]),
             (''A:B'', [[(''FleeName'', ''A:B''), (''FinalStatus'', ''DELIVERED'')]])]"
  have ok: "statusType (processExcel quiet ''hub'' (Some (Workbook ''Sheet1'' ?rows)) file_chosen)
            = success"
    by (simp add: run_eval)
  have g: "groupByFleeName (deliveredData ?rows) = Inr ?g"
    by (simp add: run_eval)
  have names: "first_seen (map (\<lambda>k. replace_illegal k @ ''.xlsx'') (Object_keys ?g))
               = [''A_B.xlsx'', ''C.xlsx'']"
    by (simp add: run_eval)
  have last_ab: "group_sheet ''Sheet1''
                   (snd (last (filter (\<lambda>(fleeName, data).
                                         replace_illegal fleeName @ ''.xlsx'' = ''A_B.xlsx'')
                                 (Object_entries ?g))))
           = \<lparr>sheet_name = ''Sheet1'',
              sheet_rows = [[(''FleeName'', ''A:B''), (''FinalStatus'', ''DELIVERED'')]],
              sheet_cols = [15, 15]\<rparr>"
    by (simp add: run_eval)
  have last_c: "group_sheet ''Sheet1''
                   (snd (last (filter (\<lambda>(fleeName, data).
                                         replace_illegal fleeName @ ''.xlsx'' = ''C.xlsx'')
                                 (Object_entries ?g))))
           = \<lparr>sheet_name = ''Sheet1'',
              sheet_rows = [[(''FleeName'', ''C''), (''FinalStatus'', ''DELIVERED'')]],
              sheet_cols = [15, 15]\<rparr>"
    by (simp add: run_eval)
  from archive_entries [OF ok] obtain sheetName jsonData groupedData z where
    f: "Some (Workbook ''Sheet1'' ?rows) = Some (Workbook sheetName jsonData)"
    and grouped: "groupByFleeName (deliveredData jsonData) = Inr groupedData"
    and dl: "download (processExcel quiet ''hub'' (Some (Workbook ''Sheet1'' ?rows)) file_chosen)
             = Some (''hub'' @ ''.zip'', z)"
    and keys: "map fst z
         = first_seen (map (\<lambda>k. replace_illegal k @ ''.xlsx'') (Object_keys groupedData))"
    and payload: "\<forall>name \<in> set (map fst z).
          map_of z name
          = Some (group_sheet sheetName
                    (snd (last (filter (\<lambda>(fleeName, data).
                                          replace_illegal fleeName @ ''.xlsx'' = name)
                                  (Object_entries groupedData)))))"
    by blast
  from f have j: "jsonData = ?rows" and sn: "sheetName = ''Sheet1''" by simp_all
  from j grouped g have gd: "groupedData = ?g" by simp
  with keys names have k: "map fst z = [''A_B.xlsx'', ''C.xlsx'']" by (simp only:)
  then have "length (map fst z) = 2" by (simp only: list.size)
  then have l: "length z = 2" by simp
  from dl have d: "download (processExcel quiet ''hub'' (Some (Workbook ''Sheet1'' ?rows)) file_chosen)
             = Some (''hub.zip'', z)" by simp
  have "''A_B.xlsx'' \<in> set (map fst z)" unfolding k by simp
  with payload have "map_of z ''A_B.xlsx''
          = Some (group_sheet sheetName
                    (snd (last (filter (\<lambda>(fleeName, data).
                                          replace_illegal fleeName @ ''.xlsx'' = ''A_B.xlsx'')
                                  (Object_entries groupedData)))))"
    by (rule bspec)
  then have ab: "map_of z ''A_B.xlsx''
            = Some \<lparr>sheet_name = ''Sheet1'',
                     sheet_rows = [[(''FleeName'', ''A:B''), (''FinalStatus'', ''DELIVERED'')]],
                     sheet_cols = [15, 15]\<rparr>"
    unfolding sn gd last_ab .
  have "''C.xlsx'' \<in> set (map fst z)" unfolding k by simp
  with payload have "map_of z ''C.xlsx''
          = Some (group_sheet sheetName
                    (snd (last (filter (\<lambda>(fleeName, data).
                                          replace_illegal fleeName @ ''.xlsx'' = ''C.xlsx'')
                                  (Object_entries groupedData)))))"
    by (rule bspec)
  then have c: "map_of z ''C.xlsx''
            = Some \<lparr>sheet_name = ''Sheet1'',
                     sheet_rows = [[(''FleeName'', ''C''), (''FinalStatus'', ''DELIVERED'')]],
                     sheet_cols = [15, 15]\<rparr>"
    unfolding sn gd last_c .
  show ?thesis
    by (intro conjI exI [of _ z] ok d k l ab c)
qed

text \<open>
  Two delivered rows with the keys \<^verbatim>\<open>A/B\<close> and \<^verbatim>\<open>A:B\<close>: the run succeeds and reports two
  files, and the archive holds the single entry \<^verbatim>\<open>A_B.xlsx\<close>, with the rows of the second
  group.
\<close>

theorem colliding_names_counterexample:
  "statusType (processExcel quiet ''hub''
     (Some (Workbook ''Sheet1''
        [[(''FleeName'', ''A/B''), (''FinalStatus'', ''DELIVERED'')],
         [(''FleeName'', ''A:B''), (''FinalStatus'', ''DELIVERED'')]])) file_chosen) = success
   \<and> download (processExcel quiet ''hub''
     (Some (Workbook ''Sheet1''
        [[(''FleeName'', ''A/B''), (''FinalStatus'', ''DELIVERED'')],
         [(''FleeName'', ''A:B''), (''FinalStatus'', ''DELIVERED'')]])) file_chosen)
     = Some (''hub.zip'',
         [(''A_B.xlsx'',
           \<lparr>sheet_name = ''Sheet1'',
            sheet_rows = [[(''FleeName'', ''A:B''), (''FinalStatus'', ''DELIVERED'')]],
            sheet_cols = [15, 15]\<rparr>)])
   \<and> stats (processExcel quiet ''hub''
     (Some (Workbook ''Sheet1''
        [[(''FleeName'', ''A/B''), (''FinalStatus'', ''DELIVERED'')],
         [(''FleeName'', ''A:B''), (''FinalStatus'', ''DELIVERED'')]])) file_chosen)
     = Some \<lparr>totalRows = 2, uniqueFiles = 2, fileNames = [''A/B'', ''A:B'']\<rparr>"
  by (simp add: run_eval)

text \<open>
  Claim C6, as amended. On every successful run the statistics carry the number of filtered
  rows, the number of groups, and a preview of the group keys: the first ten keys in the
  enumeration order of the groups. The preview has \<open>min 10 n\<close> keys for \<open>n\<close> groups, and
  is the complete list of keys when there are at most ten groups.
\<close>

theorem success_statistics:
  assumes "statusType (processExcel lib hubName f file_chosen) = success"
  shows "\<exists>sheetName jsonData groupedData.
     f = Some (Workbook sheetName jsonData)
     \<and> groupByFleeName (deliveredData jsonData) = Inr groupedData
     \<and> stats (processExcel lib hubName f file_chosen)
         = Some \<lparr>totalRows = length (deliveredData jsonData),
                 uniqueFiles = length (Object_keys groupedData),
                 fileNames = take 10 (Object_keys groupedData)\<rparr>
     \<and> length (take 10 (Object_keys groupedData)) = min 10 (length (Object_keys groupedData))
     \<and> (length (Object_keys groupedData) \<le> 10
          \<longrightarrow> take 10 (Object_keys groupedData) = Object_keys groupedData)"
proof -
  from assms obtain sheetName jsonData groupedData where
    f: "f = Some (Workbook sheetName jsonData)"
    and grouped: "groupByFleeName (deliveredData jsonData) = Inr groupedData"
    and run: "processExcel lib hubName f file_chosen
         = \<lparr>status = ''Success! Generated '' @ show_nat (length (Object_keys groupedData))
                      @ '' Excel files (DELIVERED only) and packaged as ZIP'',
            statusType = success,
            stats = Some \<lparr>totalRows = length (deliveredData jsonData),
                           uniqueFiles = length (Object_keys groupedData),
                           fileNames = take 10 (Object_keys groupedData)\<rparr>,
            progress_log =
              map Percent
                ([10, 25, 40, 50, 60]
                 @ map (\<lambda>i. progressPercent i (length (Object_keys groupedData)))
                     [1 ..< Suc (length (Object_keys groupedData))]
                 @ [95, 100])
              @ [Cleared],
            download = Some (hubName @ ''.zip'',
              foldl (\<lambda>z (fleeName, data).
                       zip_file z (cleanFleeName fleeName @ ''.xlsx'')
                         (group_sheet sheetName data))
                    [] (Object_entries groupedData))\<rparr>"
    by (rule processExcel_success_state)
  have "stats (processExcel lib hubName f file_chosen)
         = Some \<lparr>totalRows = length (deliveredData jsonData),
                 uniqueFiles = length (Object_keys groupedData),
                 fileNames = take 10 (Object_keys groupedData)\<rparr>"
    unfolding run by simp
  moreover have "length (take 10 (Object_keys groupedData))
                 = min 10 (length (Object_keys groupedData))"
    by (simp add: min.commute)
  moreover have "length (Object_keys groupedData) \<le> 10
          \<longrightarrow> take 10 (Object_keys groupedData) = Object_keys groupedData"
    by simp
  ultimately show ?thesis using f grouped by blast
qed

theorem success_statistics_witness:
  "statusType (processExcel quiet ''hub''
     (Some (Workbook ''Sheet1''
        [[(''FleeName'', ''X''), (''FinalStatus'', ''DELIVERED'')],
         [(''FleeName'', ''Y''), (''FinalStatus'', ''delivered'')],
         [(''FleeName'', ''X''), (''FinalStatus'', ''LOST'')],
         [(''FleeName'', ''Z''), (''FinalStatus'', ''Delivered'')]])) file_chosen) = success
   \<and> stats (processExcel quiet ''hub''
     (Some (Workbook ''Sheet1''
        [[(''FleeName'', ''X''), (''FinalStatus'', ''DELIVERED'')],
         [(''FleeName'', ''Y''), (''FinalStatus'', ''delivered'')],
         [(''FleeName'', ''X''), (''FinalStatus'', ''LOST'')],
         [(''FleeName'', ''Z''), (''FinalStatus'', ''Delivered'')]])) file_chosen)
     = Some \<lparr>totalRows = 3, uniqueFiles = 3, fileNames = [''X'', ''Y'', ''Z'']\<rparr>"
proof -
  let ?rows = "[[(''FleeName'', ''X''), (''FinalStatus'', ''DELIVERED'')],
         [(''FleeName'', ''Y''), (''FinalStatus'', ''delivered'')],
         [(''FleeName'', ''X''), (''FinalStatus'', ''LOST'')],
         [(''FleeName'', ''Z''), (''FinalStatus'', ''Delivered'')]]"
  let ?g = "[(''X'', [[(''FleeName'', ''X''), (''FinalStatus'', ''DELIVERED'')]]),
             (''Y'', [[(''FleeName'', ''Y''), (''FinalStatus'', ''delivered'')]]),
             (''Z'', [[(''FleeName'', ''Z''), (''FinalStatus'', ''Delivered'')]])]"
  have ok: "statusType (processExcel quiet ''hub'' (Some (Workbook ''Sheet1'' ?rows)) file_chosen)
            = success"
    by (simp add: run_eval)
  have n: "length (deliveredData ?rows) = 3"
    by (simp add: run_eval)
  have g: "groupByFleeName (deliveredData ?rows) = Inr ?g"
    by (simp add: run_eval)
  have keys: "Object_keys ?g = [''X'', ''Y'', ''Z'']"
    by (simp add: run_eval)
  from success_statistics [OF ok] obtain sheetName jsonData groupedData where
    f: "Some (Workbook ''Sheet1'' ?rows) = Some (Workbook sheetName jsonData)"
    and grouped: "groupByFleeName (deliveredData jsonData) = Inr groupedData"
    and st: "stats (processExcel quiet ''hub'' (Some (Workbook ''Sheet1'' ?rows)) file_chosen)
         = Some \<lparr>totalRows = length (deliveredData jsonData),
                 uniqueFiles = length (Object_keys groupedData),
                 fileNames = take 10 (Object_keys groupedData)\<rparr>"
    by blast
  from f have j: "jsonData = ?rows" by simp
  with grouped g have "groupedData = ?g" by simp
  with st j n keys
  have "stats (processExcel quiet ''hub'' (Some (Workbook ''Sheet1'' ?rows)) file_chosen)
     = Some \<lparr>totalRows = 3, uniqueFiles = 3, fileNames = [''X'', ''Y'', ''Z'']\<rparr>"
    by simp
  with ok show ?thesis by (intro conjI)
qed

text \<open>
  Eleven delivered rows with the keys \<^verbatim>\<open>a\<close> to \<^verbatim>\<open>k\<close>: the run succeeds with eleven groups
  and reports the ten keys \<^verbatim>\<open>a\<close> to \<^verbatim>\<open>j\<close>.
\<close>

theorem eleven_groups_counterexample:
  "stats (processExcel quiet ''hub''
     (Some (Workbook ''Sheet1''
        [[(''FleeName'', ''a''), (''FinalStatus'', ''DELIVERED'')],
         [(''FleeName'', ''b''), (''FinalStatus'', ''DELIVERED'')],
         [(''FleeName'', ''c''), (''FinalStatus'', ''DELIVERED'')],
         [(''FleeName'', ''d''), (''FinalStatus'', ''DELIVERED'')],
         [(''FleeName'', ''e''), (''FinalStatus'', ''DELIVERED'')],
         [(''FleeName'', ''f''), (''FinalStatus'', ''DELIVERED'')],
         [(''FleeName'', ''g''), (''FinalStatus'', ''DELIVERED'')],
         [(''FleeName'', ''h''), (''FinalStatus'', ''DELIVERED'')],
         [(''FleeName'', ''i''), (''FinalStatus'', ''DELIVERED'')],
         [(''FleeName'', ''j''), (''FinalStatus'', ''DELIVERED'')],
         [(''FleeName'', ''k''), (''FinalStatus'', ''DELIVERED'')]])) file_chosen)
   = Some \<lparr>totalRows = 11, uniqueFiles = 11,
           fileNames = [''a'', ''b'', ''c'', ''d'', ''e'', ''f'', ''g'', ''h'', ''i'', ''j'']\<rparr>
   \<and> statusType (processExcel quiet ''hub''
     (Some (Workbook ''Sheet1''
        [[(''FleeName'', ''a''), (''FinalStatus'', ''DELIVERED'')],
         [(''FleeName'', ''b''), (''FinalStatus'', ''DELIVERED'')],
         [(''FleeName'', ''c''), (''FinalStatus'', ''DELIVERED'')],
         [(''FleeName'', ''d''), (''FinalStatus'', ''DELIVERED'')],
         [(''FleeName'', ''e''), (''FinalStatus'', ''DELIVERED'')],
         [(''FleeName'', ''f''), (''FinalStatus'', ''DELIVERED'')],
         [(''FleeName'', ''g''), (''FinalStatus'', ''DELIVERED'')],
         [(''FleeName'', ''h''), (''FinalStatus'', ''DELIVERED'')],
         [(''FleeName'', ''i''), (''FinalStatus'', ''DELIVERED'')],
         [(''FleeName'', ''j''), (''FinalStatus'', ''DELIVERED'')],
         [(''FleeName'', ''k''), (''FinalStatus'', ''DELIVERED'')]])) file_chosen) = success"
proof -
  let ?rows = "[[(''FleeName'', ''a''), (''FinalStatus'', ''DELIVERED'')],
         [(''FleeName'', ''b''), (''FinalStatus'', ''DELIVERED'')],
         [(''FleeName'', ''c''), (''FinalStatus'', ''DELIVERED'')],
         [(''FleeName'', ''d''), (''FinalStatus'', ''DELIVERED'')],
         [(''FleeName'', ''e''), (''FinalStatus'', ''DELIVERED'')],
         [(''FleeName'', ''f''), (''FinalStatus'', ''DELIVERED'')],
         [(''FleeName'', ''g''), (''FinalStatus'', ''DELIVERED'')],
         [(''FleeName'', ''h''), (''FinalStatus'', ''DELIVERED'')],
         [(''FleeName'', ''i''), (''FinalStatus'', ''DELIVERED'')],
         [(''FleeName'', ''j''), (''FinalStatus'', ''DELIVERED'')],
         [(''FleeName'', ''k''), (''FinalStatus'', ''DELIVERED'')]]"
  let ?g = "[(''a'', [[(''FleeName'', ''a''), (''FinalStatus'', ''DELIVERED'')]]),
      (''b'', [[(''FleeName'', ''b''), (''FinalStatus'', ''DELIVERED'')]]),
      (''c'', [[(''FleeName'', ''c''), (''FinalStatus'', ''DELIVERED'')]]),
      (''d'', [[(''FleeName'', ''d''), (''FinalStatus'', ''DELIVERED'')]]),
      (''e'', [[(''FleeName'', ''e''), (''FinalStatus'', ''DELIVERED'')]]),
      (''f'', [[(''FleeName'', ''f''), (''FinalStatus'', ''DELIVERED'')]]),
      (''g'', [[(''FleeName'', ''g''), (''FinalStatus'', ''DELIVERED'')]]),
      (''h'', [[(''FleeName'', ''h''), (''FinalStatus'', ''DELIVERED'')]]),
      (''i'', [[(''FleeName'', ''i''), (''FinalStatus'', ''DELIVERED'')]]),
      (''j'', [[(''FleeName'', ''j''), (''FinalStatus'', ''DELIVERED'')]]),
      (''k'', [[(''FleeName'', ''k''), (''FinalStatus'', ''DELIVERED'')]])]"
  have d: "deliveredData ?rows = ?rows"
    by (simp add: deliveredData_def isDelivered_def string_eval group_eval)
  have g: "groupByFleeName ?rows = Inr ?g"
    by (simp add: group_eval Let_def)
  have k: "Object_keys ?g
           = [''a'', ''b'', ''c'', ''d'', ''e'', ''f'', ''g'', ''h'', ''i'', ''j'', ''k'']"
    by (simp add: Object_keys_def Object_entries_def array_index_eval)
  have ok: "statusType (processExcel quiet ''hub'' (Some (Workbook ''Sheet1'' ?rows)) file_chosen)
            = success"
    unfolding processExcel_success_iff d
    by (intro conjI exI [of _ ?g] g) (simp_all add: hasOwnProperty_def quiet_def)
  from ok obtain sheetName jsonData groupedData where
    f: "Some (Workbook ''Sheet1'' ?rows) = Some (Workbook sheetName jsonData)"
    and grouped: "groupByFleeName (deliveredData jsonData) = Inr groupedData"
    and run: "processExcel quiet ''hub'' (Some (Workbook ''Sheet1'' ?rows)) file_chosen
         = \<lparr>status = ''Success! Generated '' @ show_nat (length (Object_keys groupedData))
                      @ '' Excel files (DELIVERED only) and packaged as ZIP'',
            statusType = success,
            stats = Some \<lparr>totalRows = length (deliveredData jsonData),
                           uniqueFiles = length (Object_keys groupedData),
                           fileNames = take 10 (Object_keys groupedData)\<rparr>,
            progress_log =
              map Percent
                ([10, 25, 40, 50, 60]
                 @ map (\<lambda>i. progressPercent i (length (Object_keys groupedData)))
                     [1 ..< Suc (length (Object_keys groupedData))]
                 @ [95, 100])
              @ [Cleared],
            download = Some (''hub'' @ ''.zip'',
              foldl (\<lambda>z (fleeName, data).
                       zip_file z (cleanFleeName fleeName @ ''.xlsx'')
                         (group_sheet sheetName data))
                    [] (Object_entries groupedData))\<rparr>"
    by (rule processExcel_success_state)
  from f have j: "jsonData = ?rows" by simp
  with grouped g d have gd: "groupedData = ?g" by simp
  have "stats (processExcel quiet ''hub'' (Some (Workbook ''Sheet1'' ?rows)) file_chosen)
        = Some \<lparr>totalRows = length (deliveredData jsonData),
                uniqueFiles = length (Object_keys groupedData),
                fileNames = take 10 (Object_keys groupedData)\<rparr>"
    unfolding run by simp
  then have "stats (processExcel quiet ''hub'' (Some (Workbook ''Sheet1'' ?rows)) file_chosen)
   = Some \<lparr>totalRows = 11, uniqueFiles = 11,
           fileNames = [''a'', ''b'', ''c'', ''d'', ''e'', ''f'', ''g'', ''h'', ''i'', ''j'']\<rparr>"
    unfolding j gd d k by simp
  with ok show ?thesis by (intro conjI)
qed

end
